theory Spec2Isabelle
  imports Complex_Main
begin

section \<open>Shankar Reel Quest: the upgrade economy, the hook and the catch loop\<close>

text \<open>
  The development embeds the rule-carrying part of the game: \<^verbatim>\<open>config.py\<close> (constants),
  \<^verbatim>\<open>game_state.py\<close> (class \<^verbatim>\<open>GameState\<close>), \<^verbatim>\<open>fishing.py\<close> (class \<^verbatim>\<open>FishingLine\<close>),
  \<^verbatim>\<open>fish.py\<close> (classes \<^verbatim>\<open>Fish\<close> and \<^verbatim>\<open>FishManager\<close>) and \<^verbatim>\<open>Game.end_round\<close> of
  \<^verbatim>\<open>main.py\<close>. Python integers are \<^typ>\<open>int\<close>, Python dictionaries are maps, a raised
  exception is the left summand of a sum type, and a mutated object is a value that the
  function returns updated.
\<close>

subsection \<open>Python exceptions, indexing and slicing\<close>

datatype exn = KeyError | IndexError

text \<open>\<^verbatim>\<open>xs[i]\<close>: a negative index counts from the end, anything outside raises.\<close>

definition py_index :: "'a list \<Rightarrow> int \<Rightarrow> exn + 'a" where
  "py_index xs i =
     (if 0 \<le> i \<and> i < int (length xs) then Inr (xs ! nat i)
      else if - int (length xs) \<le> i \<and> i < 0 then Inr (xs ! nat (int (length xs) + i))
      else Inl IndexError)"

text \<open>\<^verbatim>\<open>xs[:n]\<close>: a negative bound drops that many elements from the end.\<close>

definition py_slice_to :: "int \<Rightarrow> 'a list \<Rightarrow> 'a list" where
  "py_slice_to n xs =
     (if 0 \<le> n then take (nat n) xs else take (nat (int (length xs) + n)) xs)"

subsection \<open>\<^verbatim>\<open>config.py\<close>\<close>

definition BASE_ROUND_DURATION :: int where "BASE_ROUND_DURATION = 10000"
definition BASE_HOOK_CAPACITY :: int where "BASE_HOOK_CAPACITY = 4"
definition BASE_MAX_DEPTH :: int where "BASE_MAX_DEPTH = 300"

definition UPGRADE_COSTS :: "string \<rightharpoonup> int list" where
  "UPGRADE_COSTS =
     [''line_length'' \<mapsto> [100, 250, 500, 1000, 2000],
      ''hook_capacity'' \<mapsto> [200, 400, 800, 1600, 3200],
      ''round_timer'' \<mapsto> [150, 300, 600, 1200, 2400]]"

definition DEPTH_INCREASE_PER_LEVEL :: int where "DEPTH_INCREASE_PER_LEVEL = 100"
definition CAPACITY_INCREASE_PER_LEVEL :: int where "CAPACITY_INCREASE_PER_LEVEL = 1"
definition TIMER_INCREASE_PER_LEVEL :: int where "TIMER_INCREASE_PER_LEVEL = 5000"

text \<open>
  \<^verbatim>\<open>DEPTH_ZONES\<close> is a dictionary literal that the code iterates in insertion order, so it
  is an association list here: zone name, then the inclusive interval.
\<close>

definition DEPTH_ZONES :: "(string \<times> int \<times> int) list" where
  "DEPTH_ZONES =
     [(''surface'', 0, 100),
      (''shallows'', 101, 200),
      (''mid_water'', 201, 300),
      (''deep_sea'', 301, 400),
      (''abyss'', 401, 500)]"

subsection \<open>\<^verbatim>\<open>game_state.py\<close>: class \<^verbatim>\<open>GameState\<close>\<close>

record game_state =
  coins :: int
  upgrades :: "string \<rightharpoonup> int"
  power_ups :: "string \<rightharpoonup> int"
  unlocked_zones :: "string list"
  total_fish_caught :: int
  total_coins_earned :: int
  deepest_depth_reached :: real

text \<open>\<^verbatim>\<open>__init__\<close> (and the values \<^verbatim>\<open>reset_progress\<close> writes back).\<close>

definition init_upgrades :: "string \<rightharpoonup> int" where
  "init_upgrades = [''line_length'' \<mapsto> 0, ''hook_capacity'' \<mapsto> 0, ''round_timer'' \<mapsto> 0]"

definition init_power_ups :: "string \<rightharpoonup> int" where
  "init_power_ups =
     [''coin_multiplier'' \<mapsto> 0, ''rare_fish_lure'' \<mapsto> 0, ''magnet_hook'' \<mapsto> 0,
      ''depth_rush'' \<mapsto> 0]"

definition init_state :: game_state where
  "init_state =
     \<lparr>coins = 0, upgrades = init_upgrades, power_ups = init_power_ups,
      unlocked_zones = [''surface''], total_fish_caught = 0, total_coins_earned = 0,
      deepest_depth_reached = 0\<rparr>"

definition add_coins :: "int \<Rightarrow> game_state \<Rightarrow> game_state" where
  "add_coins amount s =
     s\<lparr>coins := coins s + amount, total_coins_earned := total_coins_earned s + amount\<rparr>"

definition get_coins :: "game_state \<Rightarrow> int" where
  "get_coins s = coins s"

text \<open>
  \<^verbatim>\<open>_update_unlocked_zones\<close>: reads \<^verbatim>\<open>self.upgrades["line_length"]\<close>, which raises
  \<^verbatim>\<open>KeyError\<close> when the dictionary has no such key.
\<close>

definition update_unlocked_zones :: "game_state \<Rightarrow> exn + game_state" where
  "update_unlocked_zones s =
     (let zones = map fst DEPTH_ZONES in
      case upgrades s ''line_length'' of
        None \<Rightarrow> Inl KeyError
      | Some lvl \<Rightarrow>
          Inr (s\<lparr>unlocked_zones := py_slice_to (min (int (length zones)) (lvl + 1)) zones\<rparr>))"

text \<open>
  \<^verbatim>\<open>purchase_upgrade\<close>: the three early returns of the source in their order, then the
  purchase. The result is the returned flag and the state after the call.
\<close>

definition purchase_upgrade :: "string \<Rightarrow> game_state \<Rightarrow> exn + (bool \<times> game_state)" where
  "purchase_upgrade upgrade_name s =
     (case upgrades s upgrade_name of
        None \<Rightarrow> Inr (False, s)
      | Some current_level \<Rightarrow>
          (case UPGRADE_COSTS upgrade_name of
             None \<Rightarrow> Inl KeyError
           | Some costs \<Rightarrow>
               if current_level \<ge> int (length costs) then Inr (False, s)
               else
                 (case py_index costs current_level of
                    Inl e \<Rightarrow> Inl e
                  | Inr cost \<Rightarrow>
                      if coins s < cost then Inr (False, s)
                      else
                        (case update_unlocked_zones
                                (s\<lparr>coins := coins s - cost,
                                   upgrades := (upgrades s)(upgrade_name \<mapsto> current_level + 1)\<rparr>) of
                           Inl e \<Rightarrow> Inl e
                         | Inr s' \<Rightarrow> Inr (True, s')))))"

definition purchase_power_up :: "string \<Rightarrow> int \<Rightarrow> game_state \<Rightarrow> bool \<times> game_state" where
  "purchase_power_up power_up_name cost s =
     (case power_ups s power_up_name of
        None \<Rightarrow> (False, s)
      | Some n \<Rightarrow>
          if coins s < cost then (False, s)
          else (True, s\<lparr>coins := coins s - cost,
                         power_ups := (power_ups s)(power_up_name \<mapsto> n + 1)\<rparr>))"

definition use_power_up :: "string \<Rightarrow> game_state \<Rightarrow> bool \<times> game_state" where
  "use_power_up power_up_name s =
     (case power_ups s power_up_name of
        None \<Rightarrow> (False, s)
      | Some n \<Rightarrow>
          if n \<le> 0 then (False, s)
          else (True, s\<lparr>power_ups := (power_ups s)(power_up_name \<mapsto> n - 1)\<rparr>))"

definition get_max_depth :: "game_state \<Rightarrow> exn + int" where
  "get_max_depth s =
     (case upgrades s ''line_length'' of
        None \<Rightarrow> Inl KeyError
      | Some lvl \<Rightarrow> Inr (BASE_MAX_DEPTH + lvl * DEPTH_INCREASE_PER_LEVEL))"

definition get_hook_capacity :: "game_state \<Rightarrow> exn + int" where
  "get_hook_capacity s =
     (case upgrades s ''hook_capacity'' of
        None \<Rightarrow> Inl KeyError
      | Some lvl \<Rightarrow> Inr (BASE_HOOK_CAPACITY + lvl * CAPACITY_INCREASE_PER_LEVEL))"

definition get_round_duration :: "game_state \<Rightarrow> exn + int" where
  "get_round_duration s =
     (case upgrades s ''round_timer'' of
        None \<Rightarrow> Inl KeyError
      | Some lvl \<Rightarrow> Inr (BASE_ROUND_DURATION + lvl * TIMER_INCREASE_PER_LEVEL))"

definition get_unlocked_zones :: "game_state \<Rightarrow> string list" where
  "get_unlocked_zones s = unlocked_zones s"

definition update_stats :: "real \<Rightarrow> int \<Rightarrow> game_state \<Rightarrow> game_state" where
  "update_stats depth fish_caught s =
     (let s1 = s\<lparr>total_fish_caught := total_fish_caught s + fish_caught\<rparr> in
      if depth > deepest_depth_reached s1 then s1\<lparr>deepest_depth_reached := depth\<rparr> else s1)"

definition reset_progress :: "game_state \<Rightarrow> game_state" where
  "reset_progress s =
     s\<lparr>coins := 0, upgrades := init_upgrades, power_ups := init_power_ups,
       unlocked_zones := [''surface''], total_fish_caught := 0, total_coins_earned := 0,
       deepest_depth_reached := 0\<rparr>"

subsection \<open>Persistence: \<^verbatim>\<open>save_game\<close> and \<^verbatim>\<open>load_game\<close>\<close>

text \<open>
  The save file holds one JSON object. Each key of the object may be absent, which is what
  \<^verbatim>\<open>dict.get(key, default)\<close> tests, so each field of the record is an option. The text
  encoding itself (\<^verbatim>\<open>json.dump\<close> followed by \<^verbatim>\<open>json.load\<close>) is taken to return the object
  it was given; a file that does not parse is \<open>Corrupt\<close>, a missing file is \<open>Absent\<close>.
\<close>

record stats_data =
  sd_total_fish_caught :: "int option"
  sd_total_coins_earned :: "int option"
  sd_deepest_depth_reached :: "real option"

record save_data =
  sd_coins :: "int option"
  sd_upgrades :: "(string \<rightharpoonup> int) option"
  sd_power_ups :: "(string \<rightharpoonup> int) option"
  sd_unlocked_zones :: "string list option"
  sd_stats :: "stats_data option"

datatype save_file = Absent | Corrupt | Saved save_data

text \<open>\<^verbatim>\<open>save_game\<close> returns the new content of the file.\<close>

definition save_game :: "game_state \<Rightarrow> save_file" where
  "save_game s =
     Saved \<lparr>sd_coins = Some (coins s),
            sd_upgrades = Some (upgrades s),
            sd_power_ups = Some (power_ups s),
            sd_unlocked_zones = Some (unlocked_zones s),
            sd_stats = Some \<lparr>sd_total_fish_caught = Some (total_fish_caught s),
                             sd_total_coins_earned = Some (total_coins_earned s),
                             sd_deepest_depth_reached = Some (deepest_depth_reached s)\<rparr>\<rparr>"

text \<open>\<^verbatim>\<open>d.get(key, default)\<close> on an optional field.\<close>

definition get_or :: "'a option \<Rightarrow> 'a \<Rightarrow> 'a" where
  "get_or field dflt = (case field of None \<Rightarrow> dflt | Some v \<Rightarrow> v)"

text \<open>
  \<^verbatim>\<open>load_game\<close>: no file returns \<^verbatim>\<open>False\<close>; a file that fails to parse raises inside
  \<^verbatim>\<open>json.load\<close>, before any assignment, and the handler returns \<^verbatim>\<open>False\<close>; otherwise every
  field is assigned from the object, with the defaults of the source.
\<close>

definition load_game :: "save_file \<Rightarrow> game_state \<Rightarrow> bool \<times> game_state" where
  "load_game file s =
     (case file of
        Absent \<Rightarrow> (False, s)
      | Corrupt \<Rightarrow> (False, s)
      | Saved d \<Rightarrow>
          (let stats = get_or (sd_stats d)
                 \<lparr>sd_total_fish_caught = None, sd_total_coins_earned = None,
                  sd_deepest_depth_reached = None\<rparr>
           in (True,
               s\<lparr>coins := get_or (sd_coins d) 0,
                 upgrades := get_or (sd_upgrades d) (upgrades s),
                 power_ups := get_or (sd_power_ups d) (power_ups s),
                 unlocked_zones := get_or (sd_unlocked_zones d) [''surface''],
                 total_fish_caught := get_or (sd_total_fish_caught stats) 0,
                 total_coins_earned := get_or (sd_total_coins_earned stats) 0,
                 deepest_depth_reached := get_or (sd_deepest_depth_reached stats) 0\<rparr>)))"

subsection \<open>Rectangles of \<^verbatim>\<open>pygame\<close>\<close>

text \<open>
  A \<^verbatim>\<open>pygame.Rect\<close> has integer position and size. Its centre is the corner plus half
  the size (integer division; sizes of loaded images are not negative), and
  \<^verbatim>\<open>collidepoint\<close> includes the left and top edges and excludes the right and bottom ones.
\<close>

record rect =
  rect_x :: int
  rect_y :: int
  rect_w :: int
  rect_h :: int

definition center :: "rect \<Rightarrow> int \<times> int" where
  "center r = (rect_x r + rect_w r div 2, rect_y r + rect_h r div 2)"

definition collidepoint :: "rect \<Rightarrow> int \<times> int \<Rightarrow> bool" where
  "collidepoint r p =
     (rect_x r \<le> fst p \<and> fst p < rect_x r + rect_w r \<and>
      rect_y r \<le> snd p \<and> snd p < rect_y r + rect_h r)"

subsection \<open>\<^verbatim>\<open>fish.py\<close>: class \<^verbatim>\<open>Fish\<close>\<close>

text \<open>
  A fish is a mutable object that the sprite group, the manager's list of the round and the
  hook's list all refer to, and \<^verbatim>\<open>fish not in self.caught_fish\<close> compares object identity
  (a sprite defines no equality of its own). So fish live in a store indexed by reference,
  and the lists hold references. A reference always denotes an object, hence the store is
  a total function.
\<close>

record fish =
  fish_name :: string
  fish_rarity :: string
  fish_value :: int
  fish_depth_range :: string
  fish_rect :: rect
  fish_direction :: int
  fish_caught :: bool

type_synonym fish_ref = nat
type_synonym fish_store = "fish_ref \<Rightarrow> fish"

text \<open>\<^verbatim>\<open>Fish.catch\<close>: the returned flag and the fish after the call.\<close>

definition catch :: "fish \<Rightarrow> bool \<times> fish" where
  "catch f = (if \<not> fish_caught f then (True, f\<lparr>fish_caught := True\<rparr>) else (False, f))"

definition get_value :: "fish \<Rightarrow> int" where
  "get_value f = fish_value f"

text \<open>
  \<^verbatim>\<open>FishManager.initialize_fish_data\<close>: the catalogue (the image path is left out), and
  \<^verbatim>\<open>Fish.__init__\<close>, whose rectangle and direction come from the image and from the
  random source and are arguments here.
\<close>

record species =
  sp_name :: string
  sp_rarity :: string
  sp_value :: int
  sp_depth_range :: string

definition initialize_fish_data :: "species list" where
  "initialize_fish_data =
     [\<lparr>sp_name = ''Clownfish'', sp_rarity = ''Common'', sp_value = 10, sp_depth_range = ''surface''\<rparr>,
      \<lparr>sp_name = ''Blue Tang'', sp_rarity = ''Common'', sp_value = 15, sp_depth_range = ''surface''\<rparr>,
      \<lparr>sp_name = ''Yellowtail'', sp_rarity = ''Uncommon'', sp_value = 25, sp_depth_range = ''shallows''\<rparr>,
      \<lparr>sp_name = ''Grouper'', sp_rarity = ''Uncommon'', sp_value = 35, sp_depth_range = ''shallows''\<rparr>,
      \<lparr>sp_name = ''Tuna'', sp_rarity = ''Rare'', sp_value = 50, sp_depth_range = ''mid_water''\<rparr>,
      \<lparr>sp_name = ''Swordfish'', sp_rarity = ''Rare'', sp_value = 75, sp_depth_range = ''mid_water''\<rparr>,
      \<lparr>sp_name = ''Angler'', sp_rarity = ''Epic'', sp_value = 100, sp_depth_range = ''deep_sea''\<rparr>,
      \<lparr>sp_name = ''Oarfish'', sp_rarity = ''Epic'', sp_value = 150, sp_depth_range = ''deep_sea''\<rparr>,
      \<lparr>sp_name = ''Kraken'', sp_rarity = ''Legendary'', sp_value = 300, sp_depth_range = ''abyss''\<rparr>]"

definition new_fish :: "species \<Rightarrow> rect \<Rightarrow> int \<Rightarrow> fish" where
  "new_fish fish_data r direction =
     \<lparr>fish_name = sp_name fish_data, fish_rarity = sp_rarity fish_data,
      fish_value = sp_value fish_data, fish_depth_range = sp_depth_range fish_data,
      fish_rect = r, fish_direction = direction, fish_caught = False\<rparr>"

subsection \<open>\<^verbatim>\<open>fishing.py\<close>: class \<^verbatim>\<open>FishingLine\<close>\<close>

record fishing_line =
  current_depth :: real
  descending :: bool
  hook_rect :: rect
  horizontal_offset :: int
  caught_fish :: "fish_ref list"

text \<open>
  The line keeps a reference to the game state, or \<^verbatim>\<open>None\<close>; the functions below take
  the current value of what it refers to as an argument.
\<close>

definition line_get_max_depth :: "game_state option \<Rightarrow> exn + int" where
  "line_get_max_depth gs =
     (case gs of Some g \<Rightarrow> get_max_depth g | None \<Rightarrow> Inr BASE_MAX_DEPTH)"

definition line_get_hook_capacity :: "game_state option \<Rightarrow> exn + int" where
  "line_get_hook_capacity gs =
     (case gs of Some g \<Rightarrow> get_hook_capacity g | None \<Rightarrow> Inr BASE_HOOK_CAPACITY)"

definition add_caught_fish ::
  "game_state option \<Rightarrow> fish_ref \<Rightarrow> fishing_line \<Rightarrow> exn + (bool \<times> fishing_line)" where
  "add_caught_fish gs f fl =
     (case line_get_hook_capacity gs of
        Inl e \<Rightarrow> Inl e
      | Inr capacity \<Rightarrow>
          if int (length (caught_fish fl)) < capacity then
            (if f \<notin> set (caught_fish fl)
             then Inr (True, fl\<lparr>caught_fish := caught_fish fl @ [f]\<rparr>)
             else Inr (False, fl))
          else Inr (False, fl))"

definition is_at_capacity :: "game_state option \<Rightarrow> fishing_line \<Rightarrow> exn + bool" where
  "is_at_capacity gs fl =
     (case line_get_hook_capacity gs of
        Inl e \<Rightarrow> Inl e
      | Inr capacity \<Rightarrow> Inr (int (length (caught_fish fl)) \<ge> capacity))"

subsection \<open>\<^verbatim>\<open>fish.py\<close>: class \<^verbatim>\<open>FishManager\<close>\<close>

text \<open>
  \<^verbatim>\<open>all_fish\<close> is a sprite group: it holds each sprite at most once and is iterated in
  insertion order; \<^verbatim>\<open>remove\<close> takes the sprite out of the group.
\<close>

record fish_manager =
  all_fish :: "fish_ref list"
  mgr_caught_fish :: "fish_ref list"

text \<open>
  \<^verbatim>\<open>(dx**2 + dy**2)**0.5\<close> on integer coordinates, as a real number.
\<close>

definition distance :: "int \<times> int \<Rightarrow> int \<times> int \<Rightarrow> real" where
  "distance fish_center hook_center =
     sqrt (real_of_int ((fst fish_center - fst hook_center)\<^sup>2
                        + (snd fish_center - snd hook_center)\<^sup>2))"

definition catch_radius :: real where
  "catch_radius = 80"

text \<open>
  \<^verbatim>\<open>check_catches\<close> runs over the list \<^verbatim>\<open>self.all_fish.sprites()\<close>, which is taken once
  before the loop. The state of the loop is the store, the line, the manager and
  \<^verbatim>\<open>caught_any\<close>. First the body of the loop for one fish:
  \<^verbatim>\<open>fish.catch() and fishing_line.add_caught_fish(fish)\<close> evaluates its right operand only
  when the left one returned \<^verbatim>\<open>True\<close>.
\<close>

fun check_catches_body ::
  "game_state option \<Rightarrow> int \<times> int \<Rightarrow> int \<times> int \<Rightarrow> fish_ref \<Rightarrow>
   fish_store \<times> fishing_line \<times> fish_manager \<times> bool \<Rightarrow>
   exn + (fish_store \<times> fishing_line \<times> fish_manager \<times> bool)" where
  "check_catches_body gs mouse_pos hook_center f (h, fl, m, caught_any) =
     (if fish_caught (h f) then Inr (h, fl, m, caught_any)
      else
        (let d = distance (center (fish_rect (h f))) hook_center in
         if (collidepoint (fish_rect (h f)) mouse_pos \<and> d \<le> catch_radius) \<or> d \<le> 30 then
           (case catch (h f) of
              (False, f') \<Rightarrow> Inr (h(f := f'), fl, m, caught_any)
            | (True, f') \<Rightarrow>
                (case add_caught_fish gs f fl of
                   Inl e \<Rightarrow> Inl e
                 | Inr (False, fl') \<Rightarrow> Inr (h(f := f'), fl', m, caught_any)
                 | Inr (True, fl') \<Rightarrow>
                     Inr (h(f := f'), fl',
                          m\<lparr>mgr_caught_fish := mgr_caught_fish m @ [f],
                            all_fish := removeAll f (all_fish m)\<rparr>,
                          True)))
         else Inr (h, fl, m, caught_any)))"

text \<open>The loop: an exception raised in the body leaves the loop.\<close>

fun check_catches_loop ::
  "game_state option \<Rightarrow> int \<times> int \<Rightarrow> int \<times> int \<Rightarrow> fish_ref list \<Rightarrow>
   fish_store \<times> fishing_line \<times> fish_manager \<times> bool \<Rightarrow>
   exn + (fish_store \<times> fishing_line \<times> fish_manager \<times> bool)" where
  "check_catches_loop gs mouse_pos hook_center [] st = Inr st"
| "check_catches_loop gs mouse_pos hook_center (f # fs) st =
     (case check_catches_body gs mouse_pos hook_center f st of
        Inl e \<Rightarrow> Inl e
      | Inr st' \<Rightarrow> check_catches_loop gs mouse_pos hook_center fs st')"

definition check_catches ::
  "game_state option \<Rightarrow> int \<times> int \<Rightarrow> fishing_line \<Rightarrow> fish_manager \<Rightarrow> fish_store \<Rightarrow>
   exn + (fish_store \<times> fishing_line \<times> fish_manager \<times> bool)" where
  "check_catches gs mouse_pos fl m h =
     check_catches_loop gs mouse_pos (center (hook_rect fl)) (all_fish m) (h, fl, m, False)"

text \<open>
  Shorthand for the two tests of the loop body: the catch condition on a fish's rectangle
  (with the value 80 of \<^verbatim>\<open>catch_radius\<close>), and the test of \<^verbatim>\<open>add_caught_fish\<close>.
\<close>

abbreviation catch_condition :: "int \<times> int \<Rightarrow> int \<times> int \<Rightarrow> rect \<Rightarrow> bool" where
  "catch_condition mouse_pos hook_center r \<equiv>
     (collidepoint r mouse_pos \<and> distance (center r) hook_center \<le> 80)
     \<or> distance (center r) hook_center \<le> 30"

abbreviation has_room :: "int \<Rightarrow> fish_ref \<Rightarrow> fishing_line \<Rightarrow> bool" where
  "has_room capacity f fl \<equiv> int (length (caught_fish fl)) < capacity \<and> f \<notin> set (caught_fish fl)"

definition calculate_round_value :: "fish_store \<Rightarrow> fish_manager \<Rightarrow> int" where
  "calculate_round_value h m = sum_list (map (\<lambda>f. get_value (h f)) (mgr_caught_fish m))"

text \<open>
  The zone of a depth, as \<^verbatim>\<open>spawn_fish\<close> computes it in its first loop: the default
  \<^verbatim>\<open>"surface"\<close>, replaced by the first zone of \<^verbatim>\<open>DEPTH_ZONES\<close> whose interval contains
  the depth. The depth is the line's \<^verbatim>\<open>current_depth\<close>, which moves in steps of 0.5.
\<close>

fun zone_containing :: "real \<Rightarrow> (string \<times> int \<times> int) list \<Rightarrow> string \<Rightarrow> string" where
  "zone_containing depth [] current_zone = current_zone"
| "zone_containing depth ((zone, min_depth, max_depth) # zs) current_zone =
     (if real_of_int min_depth \<le> depth \<and> depth \<le> real_of_int max_depth then zone
      else zone_containing depth zs current_zone)"

definition spawn_current_zone :: "real \<Rightarrow> string" where
  "spawn_current_zone depth = zone_containing depth DEPTH_ZONES ''surface''"

text \<open>
  \<^verbatim>\<open>draw_background\<close> runs the same loop and then overrides its result beyond depth 500.
\<close>

definition background_current_zone :: "real \<Rightarrow> string" where
  "background_current_zone depth =
     (if depth > 500 then ''abyss''
      else zone_containing depth DEPTH_ZONES ''surface'')"

subsection \<open>\<^verbatim>\<open>main.py\<close>: \<^verbatim>\<open>Game.end_round\<close>\<close>

datatype game_screen = MAIN_GAME | RESULTS | SHOP

record game =
  current_screen :: game_screen
  round_active :: bool
  economy :: game_state
  fish_manager :: fish_manager
  fish_objects :: fish_store

definition end_round :: "game \<Rightarrow> game" where
  "end_round g =
     (let round_value = calculate_round_value (fish_objects g) (fish_manager g) in
      g\<lparr>round_active := False,
        economy := add_coins round_value (economy g),
        current_screen := RESULTS\<rparr>)"

subsection \<open>Histories of the economy\<close>

text \<open>
  One step of a history changes the game state by one of its methods, writes the save
  file, reads it, or starts the program again (a fresh \<^verbatim>\<open>GameState\<close>, the file kept).
  A call that raises makes no step.
\<close>

inductive step :: "game_state \<times> save_file \<Rightarrow> game_state \<times> save_file \<Rightarrow> bool" where
  step_purchase_upgrade: "purchase_upgrade k s = Inr (ok, s') \<Longrightarrow> step (s, f) (s', f)"
| step_purchase_power_up: "purchase_power_up n c s = (ok, s') \<Longrightarrow> step (s, f) (s', f)"
| step_use_power_up: "use_power_up n s = (ok, s') \<Longrightarrow> step (s, f) (s', f)"
| step_add_coins: "step (s, f) (add_coins a s, f)"
| step_update_stats: "step (s, f) (update_stats d n s, f)"
| step_reset_progress: "step (s, f) (reset_progress s, f)"
| step_save_game: "step (s, f) (s, save_game s)"
| step_load_game: "load_game f s = (ok, s') \<Longrightarrow> step (s, f) (s', f)"
| step_restart: "step (s, f) (init_state, f)"

text \<open>The fixed order of the zones, and the relation between level and unlocked zones.\<close>

definition ZONE_ORDER :: "string list" where
  "ZONE_ORDER = [''surface'', ''shallows'', ''mid_water'', ''deep_sea'', ''abyss'']"

definition zones_consistent :: "game_state \<Rightarrow> bool" where
  "zones_consistent s =
     (case upgrades s ''line_length'' of
        None \<Rightarrow> False
      | Some lvl \<Rightarrow>
          int (length (unlocked_zones s)) = min 5 (lvl + 1) \<and>
          unlocked_zones s = take (nat (min 5 (lvl + 1))) ZONE_ORDER)"

text \<open>A save file that is missing, unreadable, or was written from a consistent state.\<close>

definition written_by_game :: "save_file \<Rightarrow> bool" where
  "written_by_game file =
     (file = Absent \<or> file = Corrupt \<or> (\<exists>s. zones_consistent s \<and> file = save_game s))"

text \<open>Every power-up counter of a state is a non-negative integer.\<close>

definition power_ups_nonneg :: "game_state \<Rightarrow> bool" where
  "power_ups_nonneg s = (\<forall>k n. power_ups s k = Some n \<longrightarrow> 0 \<le> n)"

section \<open>Derived limits\<close>

text \<open>
  C8. For every assignment of upgrade levels, \<^verbatim>\<open>get_max_depth\<close> is
  300 + 100 * line\_length level, \<^verbatim>\<open>get_hook_capacity\<close> is 4 + 1 * hook\_capacity level and
  \<^verbatim>\<open>get_round_duration\<close> is 10000 + 5000 * round\_timer level; each getter reads its own
  level only, so two states that agree on that level give the same result.
\<close>

theorem derived_limits_linear:
  assumes "upgrades s ''line_length'' = Some ll"
    and "upgrades s ''hook_capacity'' = Some hc"
    and "upgrades s ''round_timer'' = Some rt"
  shows "get_max_depth s = Inr (300 + 100 * ll)
       \<and> get_hook_capacity s = Inr (4 + 1 * hc)
       \<and> get_round_duration s = Inr (10000 + 5000 * rt)
       \<and> (upgrades t ''line_length'' = Some ll \<longrightarrow> get_max_depth t = get_max_depth s)
       \<and> (upgrades t ''hook_capacity'' = Some hc \<longrightarrow> get_hook_capacity t = get_hook_capacity s)
       \<and> (upgrades t ''round_timer'' = Some rt \<longrightarrow> get_round_duration t = get_round_duration s)"
  using assms
  by (simp add: get_max_depth_def get_hook_capacity_def get_round_duration_def
      BASE_MAX_DEPTH_def BASE_HOOK_CAPACITY_def BASE_ROUND_DURATION_def
      DEPTH_INCREASE_PER_LEVEL_def CAPACITY_INCREASE_PER_LEVEL_def
      TIMER_INCREASE_PER_LEVEL_def)

theorem derived_limits_linear_witness:
  "get_max_depth (init_state\<lparr>upgrades := [''line_length'' \<mapsto> 2, ''hook_capacity'' \<mapsto> 3,
                                            ''round_timer'' \<mapsto> 4]\<rparr>) = Inr 500
   \<and> get_hook_capacity (init_state\<lparr>upgrades := [''line_length'' \<mapsto> 2, ''hook_capacity'' \<mapsto> 3,
                                                  ''round_timer'' \<mapsto> 4]\<rparr>) = Inr 7
   \<and> get_round_duration (init_state\<lparr>upgrades := [''line_length'' \<mapsto> 2, ''hook_capacity'' \<mapsto> 3,
                                                   ''round_timer'' \<mapsto> 4]\<rparr>) = Inr 30000
   \<and> get_max_depth (reset_progress init_state\<lparr>upgrades := [''line_length'' \<mapsto> 2]\<rparr>) = Inr 500"
  using derived_limits_linear
    [of "init_state\<lparr>upgrades := [''line_length'' \<mapsto> 2, ''hook_capacity'' \<mapsto> 3,
                                  ''round_timer'' \<mapsto> 4]\<rparr>" 2 3 4
        "reset_progress init_state\<lparr>upgrades := [''line_length'' \<mapsto> 2]\<rparr>"]
  by simp

section \<open>The hook's capacity\<close>

text \<open>
  C1. \<^verbatim>\<open>add_caught_fish\<close> never makes the caught list longer than the hook capacity:
  when the list is already at or above capacity, or the fish is already in it, the call
  returns \<^verbatim>\<open>False\<close> and leaves the line as it was; otherwise it appends the fish at the
  tail and returns \<^verbatim>\<open>True\<close>. Depth and direction are the same after the call.
\<close>

theorem add_caught_fish_capacity:
  assumes "line_get_hook_capacity gs = Inr capacity"
  shows "\<exists>ok fl'. add_caught_fish gs f fl = Inr (ok, fl')
     \<and> (capacity \<le> int (length (caught_fish fl)) \<or> f \<in> set (caught_fish fl)
          \<longrightarrow> \<not> ok \<and> fl' = fl)
     \<and> (int (length (caught_fish fl)) < capacity \<and> f \<notin> set (caught_fish fl)
          \<longrightarrow> ok \<and> caught_fish fl' = caught_fish fl @ [f])
     \<and> current_depth fl' = current_depth fl \<and> descending fl' = descending fl
     \<and> (int (length (caught_fish fl)) \<le> capacity \<longrightarrow> int (length (caught_fish fl')) \<le> capacity)"
  using assms by (auto simp: add_caught_fish_def)

theorem add_caught_fish_capacity_witness:
  "line_get_hook_capacity (Some init_state) = Inr 4
   \<and> (\<exists>ok fl'. add_caught_fish (Some init_state) 7
          \<lparr>current_depth = 12.5, descending = True,
           hook_rect = \<lparr>rect_x = 410, rect_y = 300, rect_w = 20, rect_h = 20\<rparr>,
           horizontal_offset = 0, caught_fish = [1, 2]\<rparr> = Inr (ok, fl')
        \<and> ok \<and> caught_fish fl' = [1, 2, 7] \<and> current_depth fl' = 12.5 \<and> descending fl')"
proof -
  have cap: "line_get_hook_capacity (Some init_state) = Inr 4"
    by (simp add: line_get_hook_capacity_def get_hook_capacity_def init_state_def
        init_upgrades_def BASE_HOOK_CAPACITY_def CAPACITY_INCREASE_PER_LEVEL_def)
  show ?thesis
    using cap add_caught_fish_capacity [OF cap, of 7
          "\<lparr>current_depth = 12.5, descending = True,
           hook_rect = \<lparr>rect_x = 410, rect_y = 300, rect_w = 20, rect_h = 20\<rparr>,
           horizontal_offset = 0, caught_fish = [1, 2]\<rparr>"]
    by auto
qed

section \<open>Purchasing upgrades\<close>

lemma UPGRADE_COSTS_known:
  "k \<in> {''line_length'', ''hook_capacity'', ''round_timer''} \<Longrightarrow>
   \<exists>cs. UPGRADE_COSTS k = Some cs \<and> length cs = 5"
  by (auto simp: UPGRADE_COSTS_def)

text \<open>
  C2. In a state whose upgrade dictionary has the three kinds, a purchase of a kind at
  level \<open>L\<close> succeeds exactly when \<open>L\<close> is below the length 5 of the kind's cost table
  and the balance covers \<open>cost_table[L]\<close>; it then debits that cost and raises the level
  by one. At the maximal level, with too few coins, or for an unknown kind, it returns
  \<^verbatim>\<open>False\<close> and the state is the one before the call.
\<close>

theorem purchase_upgrade_cost_table:
  assumes valid: "dom (upgrades s) = {''line_length'', ''hook_capacity'', ''round_timer''}"
    and kind: "k \<in> {''line_length'', ''hook_capacity'', ''round_timer''}"
    and lvl: "upgrades s k = Some L" and nonneg: "0 \<le> L"
  shows "\<exists>cost_table. UPGRADE_COSTS k = Some cost_table \<and> length cost_table = 5
     \<and> (if L < 5 \<and> cost_table ! nat L \<le> coins s
         then \<exists>s'. purchase_upgrade k s = Inr (True, s')
               \<and> coins s' = coins s - cost_table ! nat L
               \<and> upgrades s' = (upgrades s)(k \<mapsto> L + 1)
               \<and> power_ups s' = power_ups s
         else purchase_upgrade k s = Inr (False, s))
     \<and> (k' \<notin> {''line_length'', ''hook_capacity'', ''round_timer''}
          \<longrightarrow> purchase_upgrade k' s = Inr (False, s))"
proof -
  from UPGRADE_COSTS_known [OF kind] obtain cs where cs: "UPGRADE_COSTS k = Some cs" "length cs = 5"
    by blast
  from valid have "''line_length'' \<in> dom (upgrades s)" by simp
  then obtain l0 where l0: "upgrades s ''line_length'' = Some l0" by blast
  have unknown: "k' \<notin> {''line_length'', ''hook_capacity'', ''round_timer''} \<Longrightarrow> upgrades s k' = None"
    using valid by blast
  have main: "if L < 5 \<and> cs ! nat L \<le> coins s
         then \<exists>s'. purchase_upgrade k s = Inr (True, s')
               \<and> coins s' = coins s - cs ! nat L
               \<and> upgrades s' = (upgrades s)(k \<mapsto> L + 1)
               \<and> power_ups s' = power_ups s
         else purchase_upgrade k s = Inr (False, s)"
    using cs lvl nonneg l0
    by (auto simp: purchase_upgrade_def py_index_def update_unlocked_zones_def Let_def)
  show ?thesis
    using cs main unknown by (simp add: purchase_upgrade_def)
qed

theorem purchase_upgrade_cost_table_witness:
  "dom (upgrades (add_coins 120 init_state)) = {''line_length'', ''hook_capacity'', ''round_timer''}
   \<and> upgrades (add_coins 120 init_state) ''line_length'' = Some 0
   \<and> (\<exists>s'. purchase_upgrade ''line_length'' (add_coins 120 init_state) = Inr (True, s')
          \<and> coins s' = 20 \<and> upgrades s' ''line_length'' = Some 1)
   \<and> purchase_upgrade ''reel_speed'' (add_coins 120 init_state) = Inr (False, add_coins 120 init_state)"
proof -
  have d: "dom (upgrades (add_coins 120 init_state)) = {''line_length'', ''hook_capacity'', ''round_timer''}"
    by (auto simp: add_coins_def init_state_def init_upgrades_def)
  have k: "''line_length'' \<in> {''line_length'', ''hook_capacity'', ''round_timer''}" by simp
  have l: "upgrades (add_coins 120 init_state) ''line_length'' = Some 0"
    by (simp add: add_coins_def init_state_def init_upgrades_def)
  have c: "coins (add_coins 120 init_state) = 120"
    by (simp add: add_coins_def init_state_def)
  have u: "UPGRADE_COSTS ''line_length'' = Some [100, 250, 500, 1000, 2000]"
    by (simp add: UPGRADE_COSTS_def)
  have n: "''reel_speed'' \<notin> {''line_length'', ''hook_capacity'', ''round_timer''}" by simp
  from purchase_upgrade_cost_table [OF d k l, of "''reel_speed''"]
  obtain ct where ct: "UPGRADE_COSTS ''line_length'' = Some ct"
     and br: "(if (0::int) < 5 \<and> ct ! nat 0 \<le> coins (add_coins 120 init_state)
         then \<exists>s'. purchase_upgrade ''line_length'' (add_coins 120 init_state) = Inr (True, s')
               \<and> coins s' = coins (add_coins 120 init_state) - ct ! nat 0
               \<and> upgrades s' = (upgrades (add_coins 120 init_state))(''line_length'' \<mapsto> 0 + 1)
               \<and> power_ups s' = power_ups (add_coins 120 init_state)
         else purchase_upgrade ''line_length'' (add_coins 120 init_state) = Inr (False, add_coins 120 init_state))"
     and un: "purchase_upgrade ''reel_speed'' (add_coins 120 init_state) = Inr (False, add_coins 120 init_state)"
    using n by auto
  from ct u have cteq: "ct = [100, 250, 500, 1000, 2000]" by simp
  from br obtain s' where s': "purchase_upgrade ''line_length'' (add_coins 120 init_state) = Inr (True, s')"
      "coins s' = 20" "upgrades s' = (upgrades (add_coins 120 init_state))(''line_length'' \<mapsto> 1)"
    unfolding cteq c by auto
  show ?thesis using d l s' un by auto
qed

section \<open>Saving and loading\<close>

text \<open>
  C7. Loading what \<^verbatim>\<open>save_game\<close> wrote gives back the state that was saved, whatever
  the state before the load was; and loading an object without the key \<^verbatim>\<open>"stats"\<close>
  succeeds with the three statistics at zero.
\<close>

theorem save_load_round_trip:
  "load_game (save_game s) s0 = (True, s)
   \<and> fst (load_game (Saved (d\<lparr>sd_stats := None\<rparr>)) s0)
   \<and> total_fish_caught (snd (load_game (Saved (d\<lparr>sd_stats := None\<rparr>)) s0)) = 0
   \<and> total_coins_earned (snd (load_game (Saved (d\<lparr>sd_stats := None\<rparr>)) s0)) = 0
   \<and> deepest_depth_reached (snd (load_game (Saved (d\<lparr>sd_stats := None\<rparr>)) s0)) = 0"
  by (simp add: load_game_def save_game_def get_or_def)

section \<open>The zone of a spawn\<close>

text \<open>
  C9. At depth 450 the zone that \<^verbatim>\<open>spawn_fish\<close> computes is the abyss, whose interval
  holds the depth. At depth 650 no interval holds the depth and the zone is the default,
  the surface, where \<^verbatim>\<open>draw_background\<close> takes the abyss.
\<close>

theorem spawn_zone_beyond_500:
  "spawn_current_zone 450 = ''abyss''
   \<and> spawn_current_zone 650 = ''surface''
   \<and> background_current_zone 650 = ''abyss''"
  by (simp add: spawn_current_zone_def background_current_zone_def DEPTH_ZONES_def)

section \<open>The payout of a round\<close>

text \<open>
  C3. The value of a round is the sum of the values of the fish in the manager's list of
  the round (a Clownfish, value 10, and a Tuna, value 50, give 60); \<^verbatim>\<open>add_coins\<close>
  raises the balance and the lifetime earnings by exactly the amount; and \<^verbatim>\<open>end_round\<close>
  adds the value of the round to the economy.
\<close>

theorem round_payout_settlement:
  "calculate_round_value h m = (\<Sum>f\<leftarrow>mgr_caught_fish m. fish_value (h f))
   \<and> (h a = new_fish (initialize_fish_data ! 0) r1 d1 \<and> h b = new_fish (initialize_fish_data ! 4) r2 d2
        \<and> mgr_caught_fish m = [a, b] \<longrightarrow> calculate_round_value h m = 60)
   \<and> coins (add_coins amount s) = coins s + amount
   \<and> total_coins_earned (add_coins amount s) = total_coins_earned s + amount
   \<and> economy (end_round g) = add_coins (calculate_round_value (fish_objects g) (fish_manager g)) (economy g)
   \<and> coins (economy (end_round g))
       = coins (economy g) + (\<Sum>f\<leftarrow>mgr_caught_fish (fish_manager g). fish_value (fish_objects g f))
   \<and> total_coins_earned (economy (end_round g))
       = total_coins_earned (economy g) + (\<Sum>f\<leftarrow>mgr_caught_fish (fish_manager g). fish_value (fish_objects g f))"
proof -
  have v: "calculate_round_value h m = (\<Sum>f\<leftarrow>mgr_caught_fish m. fish_value (h f))" for h m
    by (simp add: calculate_round_value_def get_value_def)
  have c0: "fish_value (new_fish (initialize_fish_data ! 0) r1 d1) = 10"
    by (simp add: new_fish_def initialize_fish_data_def)
  have c4: "fish_value (new_fish (initialize_fish_data ! 4) r2 d2) = 50"
    by (simp add: new_fish_def initialize_fish_data_def)
  have ex: "h a = new_fish (initialize_fish_data ! 0) r1 d1 \<and> h b = new_fish (initialize_fish_data ! 4) r2 d2
        \<and> mgr_caught_fish m = [a, b] \<longrightarrow> calculate_round_value h m = 60"
    using c0 c4 by (simp add: v)
  have e: "economy (end_round g) = add_coins (calculate_round_value (fish_objects g) (fish_manager g)) (economy g)"
    by (simp add: end_round_def Let_def)
  show ?thesis
    using ex by (simp add: e v add_coins_def)
qed

theorem round_payout_settlement_witness:
  "calculate_round_value
     ((\<lambda>_. new_fish (initialize_fish_data ! 0) \<lparr>rect_x = 0, rect_y = 450, rect_w = 40, rect_h = 20\<rparr> 1)
        (1 := new_fish (initialize_fish_data ! 4) \<lparr>rect_x = 800, rect_y = 470, rect_w = 40, rect_h = 20\<rparr> (- 1)))
     \<lparr>all_fish = [], mgr_caught_fish = [0, 1]\<rparr> = 60"
proof -
  note t = round_payout_settlement
    [where h = "(\<lambda>_. new_fish (initialize_fish_data ! 0) \<lparr>rect_x = 0, rect_y = 450, rect_w = 40, rect_h = 20\<rparr> 1)
        (1 := new_fish (initialize_fish_data ! 4) \<lparr>rect_x = 800, rect_y = 470, rect_w = 40, rect_h = 20\<rparr> (- 1))"
       and m = "\<lparr>all_fish = [], mgr_caught_fish = [0, 1]\<rparr>" and a = 0 and b = 1
       and ?r1.0 = "\<lparr>rect_x = 0, rect_y = 450, rect_w = 40, rect_h = 20\<rparr>" and ?d1.0 = 1
       and ?r2.0 = "\<lparr>rect_x = 800, rect_y = 470, rect_w = 40, rect_h = 20\<rparr>" and ?d2.0 = "- 1"]
  from t [THEN conjunct2, THEN conjunct1] show ?thesis by simp
qed

section \<open>Power-ups\<close>

text \<open>
  C10. In a state with the four power-ups and no negative counter,
  \<^verbatim>\<open>purchase_power_up\<close> debits the cost and raises the named counter by one exactly when
  the name is known and the balance covers the cost, and \<^verbatim>\<open>use_power_up\<close> lowers the
  named counter by one exactly when the name is known and its counter is positive; any
  other call returns \<^verbatim>\<open>False\<close> and changes nothing. No counter is negative afterwards.
\<close>

theorem power_up_counters_nonneg:
  assumes inv: "power_ups_nonneg s"
    and known: "dom (power_ups s) = {''coin_multiplier'', ''rare_fish_lure'', ''magnet_hook'', ''depth_rush''}"
  shows "purchase_power_up name cost s =
           (if name \<in> {''coin_multiplier'', ''rare_fish_lure'', ''magnet_hook'', ''depth_rush''}
               \<and> cost \<le> coins s
            then (True, s\<lparr>coins := coins s - cost,
                          power_ups := (power_ups s)(name \<mapsto> the (power_ups s name) + 1)\<rparr>)
            else (False, s))
       \<and> use_power_up name s =
           (if name \<in> {''coin_multiplier'', ''rare_fish_lure'', ''magnet_hook'', ''depth_rush''}
               \<and> 0 < the (power_ups s name)
            then (True, s\<lparr>power_ups := (power_ups s)(name \<mapsto> the (power_ups s name) - 1)\<rparr>)
            else (False, s))
       \<and> power_ups_nonneg (snd (purchase_power_up name cost s))
       \<and> power_ups_nonneg (snd (use_power_up name s))"
proof -
  have mem: "name \<in> {''coin_multiplier'', ''rare_fish_lure'', ''magnet_hook'', ''depth_rush''}
               \<longleftrightarrow> name \<in> dom (power_ups s)"
    using known by simp
  show ?thesis
  proof (cases "power_ups s name")
    case None
    then have "name \<notin> dom (power_ups s)" by blast
    with None inv show ?thesis
      unfolding mem by (simp add: purchase_power_up_def use_power_up_def)
  next
    case (Some n)
    then have d: "name \<in> dom (power_ups s)" by blast
    from inv Some have n0: "0 \<le> n" by (simp add: power_ups_nonneg_def)
    have pn: "power_ups_nonneg (s\<lparr>coins := coins s - cost, power_ups := (power_ups s)(name \<mapsto> n + 1)\<rparr>)"
      using inv n0 by (simp add: power_ups_nonneg_def)
    have un: "0 < n \<Longrightarrow> power_ups_nonneg (s\<lparr>power_ups := (power_ups s)(name \<mapsto> n - 1)\<rparr>)"
      using inv by (simp add: power_ups_nonneg_def)
    show ?thesis
      unfolding mem using Some d inv pn un
      by (simp add: purchase_power_up_def use_power_up_def not_less not_le)
  qed
qed

theorem power_up_counters_nonneg_witness:
  "power_ups_nonneg (add_coins 50 init_state)
   \<and> dom (power_ups (add_coins 50 init_state))
        = {''coin_multiplier'', ''rare_fish_lure'', ''magnet_hook'', ''depth_rush''}
   \<and> fst (purchase_power_up ''magnet_hook'' 30 (add_coins 50 init_state))
   \<and> coins (snd (purchase_power_up ''magnet_hook'' 30 (add_coins 50 init_state))) = 20
   \<and> power_ups (snd (purchase_power_up ''magnet_hook'' 30 (add_coins 50 init_state))) ''magnet_hook'' = Some 1
   \<and> use_power_up ''magnet_hook'' (add_coins 50 init_state) = (False, add_coins 50 init_state)
   \<and> purchase_power_up ''net'' 30 (add_coins 50 init_state) = (False, add_coins 50 init_state)"
proof -
  have i: "power_ups_nonneg (add_coins 50 init_state)"
    by (simp add: power_ups_nonneg_def add_coins_def init_state_def init_power_ups_def split: if_splits)
  have d: "dom (power_ups (add_coins 50 init_state))
        = {''coin_multiplier'', ''rare_fish_lure'', ''magnet_hook'', ''depth_rush''}"
    by (auto simp: add_coins_def init_state_def init_power_ups_def)
  have c: "coins (add_coins 50 init_state) = 50" by (simp add: add_coins_def init_state_def)
  have p: "power_ups (add_coins 50 init_state) ''magnet_hook'' = Some 0"
    by (simp add: add_coins_def init_state_def init_power_ups_def)
  show ?thesis
    using i d power_up_counters_nonneg [OF i d, of "''magnet_hook''" 30]
      power_up_counters_nonneg [OF i d, of "''net''" 30]
    by (simp add: c p)
qed

text \<open>The other methods leave the counters alone or reset them to zero.\<close>

lemma purchase_upgrade_power_ups:
  "purchase_upgrade k s = Inr (ok, s') \<Longrightarrow> power_ups s' = power_ups s"
  by (auto simp: purchase_upgrade_def update_unlocked_zones_def Let_def
      split: option.splits if_splits sum.splits)

lemma power_ups_nonneg_other_operations:
  assumes inv: "power_ups_nonneg s"
  shows "power_ups_nonneg (add_coins a s) \<and> power_ups_nonneg (update_stats dp fc s)
       \<and> power_ups_nonneg (reset_progress s)
       \<and> (purchase_upgrade k s = Inr (ok, s') \<longrightarrow> power_ups_nonneg s')
       \<and> power_ups_nonneg (snd (load_game (save_game s) s0))"
proof -
  have 1: "power_ups_nonneg (add_coins a s)" using inv by (simp add: power_ups_nonneg_def add_coins_def)
  have 2: "power_ups_nonneg (update_stats dp fc s)" using inv by (simp add: power_ups_nonneg_def update_stats_def Let_def)
  have 3: "power_ups_nonneg (reset_progress s)" by (simp add: power_ups_nonneg_def reset_progress_def init_power_ups_def split: if_splits)
  have 4: "purchase_upgrade k s = Inr (ok, s') \<longrightarrow> power_ups_nonneg s'"
    using inv purchase_upgrade_power_ups [of k s ok s'] by (auto simp: power_ups_nonneg_def)
  have 5: "power_ups_nonneg (snd (load_game (save_game s) s0))"
    using inv by (simp add: load_game_def save_game_def get_or_def power_ups_nonneg_def)
  show ?thesis using 1 2 3 4 5 by blast
qed

section \<open>Catching\<close>

text \<open>The distance test of the catch loop, on the squares.\<close>

lemma distance_le_iff:
  "0 \<le> r \<Longrightarrow> distance a b \<le> r \<longleftrightarrow> real_of_int ((fst a - fst b)\<^sup>2 + (snd a - snd b)\<^sup>2) \<le> r\<^sup>2"
  unfolding distance_def
  by (metis real_sqrt_le_iff real_sqrt_abs abs_of_nonneg)

text \<open>The body of the loop, case by case, when reading the capacity does not raise.\<close>

lemma add_caught_fish_eq:
  "line_get_hook_capacity gs = Inr capacity \<Longrightarrow>
   add_caught_fish gs f fl =
     Inr (if has_room capacity f fl
          then (True, fl\<lparr>caught_fish := caught_fish fl @ [f]\<rparr>) else (False, fl))"
  by (simp add: add_caught_fish_def)

lemma check_catches_body_skip:
  "fish_caught (h f) \<or> \<not> catch_condition mp hc (fish_rect (h f)) \<Longrightarrow>
   check_catches_body gs mp hc f (h, fl, m, a) = Inr (h, fl, m, a)"
  by (auto simp: Let_def catch_radius_def)

lemma check_catches_body_blocked:
  "line_get_hook_capacity gs = Inr capacity \<Longrightarrow> \<not> fish_caught (h f) \<Longrightarrow>
   catch_condition mp hc (fish_rect (h f)) \<Longrightarrow> \<not> has_room capacity f fl \<Longrightarrow>
   check_catches_body gs mp hc f (h, fl, m, a)
     = Inr (h(f := (h f)\<lparr>fish_caught := True\<rparr>), fl, m, a)"
  by (auto simp: Let_def catch_radius_def catch_def add_caught_fish_eq)

lemma check_catches_body_added:
  "line_get_hook_capacity gs = Inr capacity \<Longrightarrow> \<not> fish_caught (h f) \<Longrightarrow>
   catch_condition mp hc (fish_rect (h f)) \<Longrightarrow> has_room capacity f fl \<Longrightarrow>
   check_catches_body gs mp hc f (h, fl, m, a)
     = Inr (h(f := (h f)\<lparr>fish_caught := True\<rparr>), fl\<lparr>caught_fish := caught_fish fl @ [f]\<rparr>,
            m\<lparr>mgr_caught_fish := mgr_caught_fish m @ [f],
              all_fish := removeAll f (all_fish m)\<rparr>, True)"
  by (auto simp: Let_def catch_radius_def catch_def add_caught_fish_eq)

lemma check_catches_loop_Cons_cases:
  assumes cap: "line_get_hook_capacity gs = Inr capacity"
  obtains
    (skip) "fish_caught (h f) \<or> \<not> catch_condition mp hc (fish_rect (h f))"
      "check_catches_loop gs mp hc (f # fs) (h, fl, m, a) = check_catches_loop gs mp hc fs (h, fl, m, a)"
  | (blocked) "\<not> fish_caught (h f)" "catch_condition mp hc (fish_rect (h f))"
      "\<not> has_room capacity f fl"
      "check_catches_loop gs mp hc (f # fs) (h, fl, m, a) =
         check_catches_loop gs mp hc fs (h(f := (h f)\<lparr>fish_caught := True\<rparr>), fl, m, a)"
  | (added) "\<not> fish_caught (h f)" "catch_condition mp hc (fish_rect (h f))"
      "has_room capacity f fl"
      "check_catches_loop gs mp hc (f # fs) (h, fl, m, a) =
         check_catches_loop gs mp hc fs
           (h(f := (h f)\<lparr>fish_caught := True\<rparr>), fl\<lparr>caught_fish := caught_fish fl @ [f]\<rparr>,
            m\<lparr>mgr_caught_fish := mgr_caught_fish m @ [f],
              all_fish := removeAll f (all_fish m)\<rparr>, True)"
proof (cases "fish_caught (h f) \<or> \<not> catch_condition mp hc (fish_rect (h f))")
  case True
  from check_catches_body_skip [of h f mp hc gs fl m a] True
  have "check_catches_loop gs mp hc (f # fs) (h, fl, m, a)
               = check_catches_loop gs mp hc fs (h, fl, m, a)"
    by (simp del: check_catches_body.simps)
  with True show thesis by (rule skip)
next
  case False
  then have nc: "\<not> fish_caught (h f)" and cc: "catch_condition mp hc (fish_rect (h f))"
    by blast+
  show thesis
  proof (cases "has_room capacity f fl")
    case True
    from check_catches_body_added [of gs capacity h f mp hc fl m a] cap nc cc True
    have "check_catches_loop gs mp hc (f # fs) (h, fl, m, a) =
         check_catches_loop gs mp hc fs
           (h(f := (h f)\<lparr>fish_caught := True\<rparr>), fl\<lparr>caught_fish := caught_fish fl @ [f]\<rparr>,
            m\<lparr>mgr_caught_fish := mgr_caught_fish m @ [f],
              all_fish := removeAll f (all_fish m)\<rparr>, True)"
      by (simp del: check_catches_body.simps)
    with nc cc True show thesis by (rule added)
  next
    case False
    from check_catches_body_blocked [of gs capacity h f mp hc fl m a] cap nc cc False
    have "check_catches_loop gs mp hc (f # fs) (h, fl, m, a) =
         check_catches_loop gs mp hc fs (h(f := (h f)\<lparr>fish_caught := True\<rparr>), fl, m, a)"
      by (simp del: check_catches_body.simps)
    with nc cc False show thesis by (rule blocked)
  qed
qed

text \<open>The loop returns, and what it does to the store, the line and the manager.\<close>

lemma check_catches_loop_returns:
  assumes cap: "line_get_hook_capacity gs = Inr capacity"
  shows "\<exists>st'. check_catches_loop gs mp hc fs st = Inr st'"
proof (induction fs arbitrary: st)
  case Nil
  show ?case by (intro exI) (rule check_catches_loop.simps(1))
next
  case (Cons f fs)
  obtain h fl m a where st: "st = (h, fl, m, a)" using prod_cases4 by blast
  show ?case
    unfolding st
    by (rule check_catches_loop_Cons_cases [OF cap, of h f mp hc fs fl m a])
       (use Cons.IH in auto)
qed

lemma check_catches_loop_store:
  assumes cap: "line_get_hook_capacity gs = Inr capacity"
    and run: "check_catches_loop gs mp hc fs (h, fl, m, a) = Inr (h', fl', m', a')"
  shows "(\<forall>r. fish_rect (h' r) = fish_rect (h r))
       \<and> (\<forall>r. fish_caught (h r) \<longrightarrow> fish_caught (h' r))
       \<and> (\<forall>r. r \<notin> set fs \<longrightarrow> h' r = h r)
       \<and> (\<forall>r\<in>set fs. \<not> fish_caught (h r) \<longrightarrow>
             (fish_caught (h' r) \<longleftrightarrow> catch_condition mp hc (fish_rect (h r))))"
  using run
proof (induction fs arbitrary: h fl m a)
  case Nil
  then show ?case by simp
next
  case (Cons f fs)
  show ?case
  proof (rule check_catches_loop_Cons_cases [OF cap, of h f mp hc fs fl m a])
    assume c: "fish_caught (h f) \<or> \<not> catch_condition mp hc (fish_rect (h f))"
      and e: "check_catches_loop gs mp hc (f # fs) (h, fl, m, a)
               = check_catches_loop gs mp hc fs (h, fl, m, a)"
    from Cons.prems e have "check_catches_loop gs mp hc fs (h, fl, m, a) = Inr (h', fl', m', a')"
      by simp
    from Cons.IH [OF this] c show ?thesis by (auto simp del: check_catches_loop.simps)
  next
    let ?h1 = "h(f := (h f)\<lparr>fish_caught := True\<rparr>)"
    assume nc: "\<not> fish_caught (h f)" and cc: "catch_condition mp hc (fish_rect (h f))"
      and e: "check_catches_loop gs mp hc (f # fs) (h, fl, m, a) =
               check_catches_loop gs mp hc fs (?h1, fl, m, a)"
    from Cons.prems e have "check_catches_loop gs mp hc fs (?h1, fl, m, a) = Inr (h', fl', m', a')"
      by simp
    from Cons.IH [OF this] nc cc show ?thesis
      by (auto simp del: check_catches_loop.simps split: if_splits)
  next
    let ?h1 = "h(f := (h f)\<lparr>fish_caught := True\<rparr>)"
    let ?fl1 = "fl\<lparr>caught_fish := caught_fish fl @ [f]\<rparr>"
    let ?m1 = "m\<lparr>mgr_caught_fish := mgr_caught_fish m @ [f], all_fish := removeAll f (all_fish m)\<rparr>"
    assume nc: "\<not> fish_caught (h f)" and cc: "catch_condition mp hc (fish_rect (h f))"
      and e: "check_catches_loop gs mp hc (f # fs) (h, fl, m, a) =
               check_catches_loop gs mp hc fs (?h1, ?fl1, ?m1, True)"
    from Cons.prems e have "check_catches_loop gs mp hc fs (?h1, ?fl1, ?m1, True) = Inr (h', fl', m', a')"
      by simp
    from Cons.IH [OF this] nc cc show ?thesis
      by (auto simp del: check_catches_loop.simps split: if_splits)
  qed
qed

lemma check_catches_loop_lists:
  assumes cap: "line_get_hook_capacity gs = Inr capacity"
    and run: "check_catches_loop gs mp hc fs (h, fl, m, a) = Inr (h', fl', m', a')"
  shows "set (caught_fish fl) \<subseteq> set (caught_fish fl')
       \<and> length (caught_fish fl) \<le> length (caught_fish fl')
       \<and> (\<forall>r\<in>set (caught_fish fl'). r \<in> set (caught_fish fl)
             \<or> (r \<in> set fs \<and> \<not> fish_caught (h r) \<and> catch_condition mp hc (fish_rect (h r))))
       \<and> (\<forall>r\<in>set fs. \<not> fish_caught (h r) \<and> catch_condition mp hc (fish_rect (h r)) \<longrightarrow>
             r \<in> set (caught_fish fl') \<or> capacity \<le> int (length (caught_fish fl')))
       \<and> (\<forall>r\<in>set (mgr_caught_fish m'). r \<in> set (mgr_caught_fish m)
             \<or> (r \<in> set fs \<and> \<not> fish_caught (h r) \<and> catch_condition mp hc (fish_rect (h r))))
       \<and> (\<forall>r\<in>set (all_fish m). r \<in> set (all_fish m')
             \<or> (r \<in> set fs \<and> \<not> fish_caught (h r) \<and> catch_condition mp hc (fish_rect (h r))))"
  using run
proof (induction fs arbitrary: h fl m a)
  case Nil
  then show ?case by simp
next
  case (Cons f fs)
  show ?case
  proof (rule check_catches_loop_Cons_cases [OF cap, of h f mp hc fs fl m a])
    assume c: "fish_caught (h f) \<or> \<not> catch_condition mp hc (fish_rect (h f))"
      and e: "check_catches_loop gs mp hc (f # fs) (h, fl, m, a)
               = check_catches_loop gs mp hc fs (h, fl, m, a)"
    from Cons.prems e have "check_catches_loop gs mp hc fs (h, fl, m, a) = Inr (h', fl', m', a')"
      by simp
    from Cons.IH [OF this] c show ?thesis
      by (simp del: check_catches_loop.simps) blast
  next
    let ?h1 = "h(f := (h f)\<lparr>fish_caught := True\<rparr>)"
    assume nc: "\<not> fish_caught (h f)" and cc: "catch_condition mp hc (fish_rect (h f))"
      and nr: "\<not> has_room capacity f fl"
      and e: "check_catches_loop gs mp hc (f # fs) (h, fl, m, a) =
               check_catches_loop gs mp hc fs (?h1, fl, m, a)"
    from Cons.prems e have "check_catches_loop gs mp hc fs (?h1, fl, m, a) = Inr (h', fl', m', a')"
      by simp
    note ih = Cons.IH [OF this]
    have h1: "\<And>r. r \<noteq> f \<Longrightarrow> ?h1 r = h r" "fish_caught (?h1 f)" by simp_all
    from ih have 1: "set (caught_fish fl) \<subseteq> set (caught_fish fl')"
      and 2: "length (caught_fish fl) \<le> length (caught_fish fl')" by blast+
    from ih h1 have 3: "\<forall>r\<in>set (caught_fish fl'). r \<in> set (caught_fish fl)
             \<or> (r \<in> set (f # fs) \<and> \<not> fish_caught (h r) \<and> catch_condition mp hc (fish_rect (h r)))"
      by (metis list.set_intros(2))
    from nr 1 2 have f4: "f \<in> set (caught_fish fl') \<or> capacity \<le> int (length (caught_fish fl'))"
      by auto
    from ih h1 have "\<forall>r\<in>set fs. r \<noteq> f \<longrightarrow> \<not> fish_caught (h r) \<and> catch_condition mp hc (fish_rect (h r)) \<longrightarrow>
             r \<in> set (caught_fish fl') \<or> capacity \<le> int (length (caught_fish fl'))"
      by metis
    with f4 have 4: "\<forall>r\<in>set (f # fs). \<not> fish_caught (h r) \<and> catch_condition mp hc (fish_rect (h r)) \<longrightarrow>
             r \<in> set (caught_fish fl') \<or> capacity \<le> int (length (caught_fish fl'))"
      by auto
    from ih h1 have 5: "\<forall>r\<in>set (mgr_caught_fish m'). r \<in> set (mgr_caught_fish m)
             \<or> (r \<in> set (f # fs) \<and> \<not> fish_caught (h r) \<and> catch_condition mp hc (fish_rect (h r)))"
      by (metis list.set_intros(2))
    from ih h1 have 6: "\<forall>r\<in>set (all_fish m). r \<in> set (all_fish m')
             \<or> (r \<in> set (f # fs) \<and> \<not> fish_caught (h r) \<and> catch_condition mp hc (fish_rect (h r)))"
      by (metis list.set_intros(2))
    from 1 2 3 4 5 6 show ?thesis by blast
  next
    let ?h1 = "h(f := (h f)\<lparr>fish_caught := True\<rparr>)"
    let ?fl1 = "fl\<lparr>caught_fish := caught_fish fl @ [f]\<rparr>"
    let ?m1 = "m\<lparr>mgr_caught_fish := mgr_caught_fish m @ [f], all_fish := removeAll f (all_fish m)\<rparr>"
    assume nc: "\<not> fish_caught (h f)" and cc: "catch_condition mp hc (fish_rect (h f))"
      and e: "check_catches_loop gs mp hc (f # fs) (h, fl, m, a) =
               check_catches_loop gs mp hc fs (?h1, ?fl1, ?m1, True)"
    from Cons.prems e have "check_catches_loop gs mp hc fs (?h1, ?fl1, ?m1, True) = Inr (h', fl', m', a')"
      by simp
    note ih = Cons.IH [OF this]
    have h1: "\<And>r. r \<noteq> f \<Longrightarrow> ?h1 r = h r" "fish_caught (?h1 f)" by simp_all
    have l1: "caught_fish ?fl1 = caught_fish fl @ [f]" "mgr_caught_fish ?m1 = mgr_caught_fish m @ [f]"
      "all_fish ?m1 = removeAll f (all_fish m)" by simp_all
    from ih have 1: "set (caught_fish fl) \<subseteq> set (caught_fish fl')" and f1: "f \<in> set (caught_fish fl')"
      and 2: "length (caught_fish fl) \<le> length (caught_fish fl')" unfolding l1 by auto
    from ih have "\<forall>r\<in>set (caught_fish fl'). r \<in> set (caught_fish fl) \<or> r = f
             \<or> (r \<in> set fs \<and> \<not> fish_caught (?h1 r) \<and> catch_condition mp hc (fish_rect (?h1 r)))"
      unfolding l1 by auto
    with h1 nc cc have 3: "\<forall>r\<in>set (caught_fish fl'). r \<in> set (caught_fish fl)
             \<or> (r \<in> set (f # fs) \<and> \<not> fish_caught (h r) \<and> catch_condition mp hc (fish_rect (h r)))"
      by (metis list.set_intros)
    from ih h1 have "\<forall>r\<in>set fs. r \<noteq> f \<longrightarrow> \<not> fish_caught (h r) \<and> catch_condition mp hc (fish_rect (h r)) \<longrightarrow>
             r \<in> set (caught_fish fl') \<or> capacity \<le> int (length (caught_fish fl'))"
      by metis
    with f1 have 4: "\<forall>r\<in>set (f # fs). \<not> fish_caught (h r) \<and> catch_condition mp hc (fish_rect (h r)) \<longrightarrow>
             r \<in> set (caught_fish fl') \<or> capacity \<le> int (length (caught_fish fl'))"
      by auto
    from ih have "\<forall>r\<in>set (mgr_caught_fish m'). r \<in> set (mgr_caught_fish m) \<or> r = f
             \<or> (r \<in> set fs \<and> \<not> fish_caught (?h1 r) \<and> catch_condition mp hc (fish_rect (?h1 r)))"
      unfolding l1 by auto
    with h1 nc cc have 5: "\<forall>r\<in>set (mgr_caught_fish m'). r \<in> set (mgr_caught_fish m)
             \<or> (r \<in> set (f # fs) \<and> \<not> fish_caught (h r) \<and> catch_condition mp hc (fish_rect (h r)))"
      by (metis list.set_intros)
    from ih have "\<forall>r\<in>set (all_fish m). r = f \<or> r \<in> set (all_fish m')
             \<or> (r \<in> set fs \<and> \<not> fish_caught (?h1 r) \<and> catch_condition mp hc (fish_rect (?h1 r)))"
      unfolding l1 by auto
    with h1 nc cc have 6: "\<forall>r\<in>set (all_fish m). r \<in> set (all_fish m')
             \<or> (r \<in> set (f # fs) \<and> \<not> fish_caught (h r) \<and> catch_condition mp hc (fish_rect (h r)))"
      by (metis list.set_intros)
    from 1 2 3 4 5 6 show ?thesis by blast
  qed
qed

lemma distance_eq_iff:
  "0 \<le> r \<Longrightarrow> distance a b = r \<longleftrightarrow> real_of_int ((fst a - fst b)\<^sup>2 + (snd a - snd b)\<^sup>2) = r\<^sup>2"
  unfolding distance_def
  by (metis real_sqrt_eq_iff real_sqrt_abs abs_of_nonneg)

text \<open>The loop over a list in two parts, and what only grows or shrinks in it.\<close>

lemma check_catches_loop_append:
  "check_catches_loop gs mp hc (xs @ ys) st =
     (case check_catches_loop gs mp hc xs st of
        Inl e \<Rightarrow> Inl e
      | Inr st' \<Rightarrow> check_catches_loop gs mp hc ys st')"
  by (induction xs arbitrary: st) (simp_all del: check_catches_body.simps split: sum.splits)

lemma check_catches_loop_mono:
  assumes cap: "line_get_hook_capacity gs = Inr capacity"
    and run: "check_catches_loop gs mp hc fs (h, fl, m, a) = Inr (h', fl', m', a')"
  shows "set (mgr_caught_fish m) \<subseteq> set (mgr_caught_fish m')
       \<and> set (all_fish m') \<subseteq> set (all_fish m)
       \<and> (a \<longrightarrow> a')"
  using run
proof (induction fs arbitrary: h fl m a)
  case Nil
  then show ?case by simp
next
  case (Cons f fs)
  show ?case
  proof (rule check_catches_loop_Cons_cases [OF cap, of h f mp hc fs fl m a])
    assume e: "check_catches_loop gs mp hc (f # fs) (h, fl, m, a)
               = check_catches_loop gs mp hc fs (h, fl, m, a)"
    from Cons.prems e have "check_catches_loop gs mp hc fs (h, fl, m, a) = Inr (h', fl', m', a')"
      by simp
    from Cons.IH [OF this] show ?thesis .
  next
    let ?h1 = "h(f := (h f)\<lparr>fish_caught := True\<rparr>)"
    assume e: "check_catches_loop gs mp hc (f # fs) (h, fl, m, a) =
               check_catches_loop gs mp hc fs (?h1, fl, m, a)"
    from Cons.prems e have "check_catches_loop gs mp hc fs (?h1, fl, m, a) = Inr (h', fl', m', a')"
      by simp
    from Cons.IH [OF this] show ?thesis .
  next
    let ?h1 = "h(f := (h f)\<lparr>fish_caught := True\<rparr>)"
    let ?fl1 = "fl\<lparr>caught_fish := caught_fish fl @ [f]\<rparr>"
    let ?m1 = "m\<lparr>mgr_caught_fish := mgr_caught_fish m @ [f], all_fish := removeAll f (all_fish m)\<rparr>"
    assume e: "check_catches_loop gs mp hc (f # fs) (h, fl, m, a) =
               check_catches_loop gs mp hc fs (?h1, ?fl1, ?m1, True)"
    from Cons.prems e have "check_catches_loop gs mp hc fs (?h1, ?fl1, ?m1, True) = Inr (h', fl', m', a')"
      by simp
    from Cons.IH [OF this] show ?thesis by auto
  qed
qed

text \<open>How many fish the hook holds after the loop has run over a list of live fish.\<close>

lemma check_catches_loop_count:
  assumes cap: "line_get_hook_capacity gs = Inr capacity"
    and run: "check_catches_loop gs mp hc fs (h, fl, m, a) = Inr (h', fl', m', a')"
    and dist: "distinct fs" and disj: "set fs \<inter> set (caught_fish fl) = {}"
  shows "int (length (caught_fish fl')) =
          (if capacity \<le> int (length (caught_fish fl)) then int (length (caught_fish fl))
           else min capacity
                  (int (length (caught_fish fl))
                   + int (length (filter (\<lambda>x. \<not> fish_caught (h x)
                                              \<and> catch_condition mp hc (fish_rect (h x))) fs))))"
  using run dist disj
proof (induction fs arbitrary: h fl m a)
  case Nil
  then show ?case by simp
next
  case (Cons f fs)
  from Cons.prems have d: "distinct fs" and nf: "f \<notin> set fs"
    and dj: "set fs \<inter> set (caught_fish fl) = {}" and fn: "f \<notin> set (caught_fish fl)"
    by auto
  show ?case
  proof (rule check_catches_loop_Cons_cases [OF cap, of h f mp hc fs fl m a])
    assume c: "fish_caught (h f) \<or> \<not> catch_condition mp hc (fish_rect (h f))"
      and e: "check_catches_loop gs mp hc (f # fs) (h, fl, m, a)
               = check_catches_loop gs mp hc fs (h, fl, m, a)"
    from Cons.prems e have "check_catches_loop gs mp hc fs (h, fl, m, a) = Inr (h', fl', m', a')"
      by simp
    from Cons.IH [OF this d dj] c show ?thesis by auto
  next
    let ?h1 = "h(f := (h f)\<lparr>fish_caught := True\<rparr>)"
    assume nc: "\<not> fish_caught (h f)" and cc: "catch_condition mp hc (fish_rect (h f))"
      and nr: "\<not> has_room capacity f fl"
      and e: "check_catches_loop gs mp hc (f # fs) (h, fl, m, a) =
               check_catches_loop gs mp hc fs (?h1, fl, m, a)"
    from Cons.prems e have "check_catches_loop gs mp hc fs (?h1, fl, m, a) = Inr (h', fl', m', a')"
      by simp
    note ih = Cons.IH [OF this d dj]
    from nr fn have full: "capacity \<le> int (length (caught_fish fl))" by simp
    with ih show ?thesis by simp
  next
    let ?h1 = "h(f := (h f)\<lparr>fish_caught := True\<rparr>)"
    let ?fl1 = "fl\<lparr>caught_fish := caught_fish fl @ [f]\<rparr>"
    let ?m1 = "m\<lparr>mgr_caught_fish := mgr_caught_fish m @ [f], all_fish := removeAll f (all_fish m)\<rparr>"
    assume nc: "\<not> fish_caught (h f)" and cc: "catch_condition mp hc (fish_rect (h f))"
      and r: "has_room capacity f fl"
      and e: "check_catches_loop gs mp hc (f # fs) (h, fl, m, a) =
               check_catches_loop gs mp hc fs (?h1, ?fl1, ?m1, True)"
    from Cons.prems e have run1: "check_catches_loop gs mp hc fs (?h1, ?fl1, ?m1, True) = Inr (h', fl', m', a')"
      by simp
    from dj nf have dj1: "set fs \<inter> set (caught_fish ?fl1) = {}" by simp
    note ih = Cons.IH [OF run1 d dj1]
    have same: "filter (\<lambda>x. \<not> fish_caught (?h1 x) \<and> catch_condition mp hc (fish_rect (?h1 x))) fs
              = filter (\<lambda>x. \<not> fish_caught (h x) \<and> catch_condition mp hc (fish_rect (h x))) fs"
      using nf by (intro filter_cong) auto
    from r have lt: "int (length (caught_fish fl)) < capacity" by simp
    have l1: "int (length (caught_fish ?fl1)) = int (length (caught_fish fl)) + 1" by simp
    have flt: "filter (\<lambda>x. \<not> fish_caught (h x) \<and> catch_condition mp hc (fish_rect (h x))) (f # fs)
        = f # filter (\<lambda>x. \<not> fish_caught (h x) \<and> catch_condition mp hc (fish_rect (h x))) fs"
      using nc cc by simp
    from ih lt show ?thesis unfolding same l1 flt by (auto simp: min_def)
  qed
qed

text \<open>
  C4, as the code has it. \<^verbatim>\<open>all_fish\<close> holds each fish once and no live fish is on the
  hook. For a live, uncaught fish \<open>f\<close>, with \<open>xs\<close> the fish that the loop visits before it:
  the catch is attempted (\<^verbatim>\<open>fish.catch()\<close> runs and sets the flag) exactly when the pointer
  is inside the fish's rectangle and the distance between the centres of fish and hook is
  at most 80, or that distance is at most 30. The fish is caught, that is, it is on the
  hook's list afterwards, exactly when this condition holds and the hook has room at the
  fish's turn: the number of fish on the hook plus the number of uncaught fish in \<open>xs\<close>
  that meet the condition is below the capacity. A caught fish is in the round's list, out
  of \<^verbatim>\<open>all_fish\<close>, and \<^verbatim>\<open>caught_any\<close> is returned true; a fish that is not caught stays
  in \<^verbatim>\<open>all_fish\<close> and enters neither list. So a fish at distance 25 is caught whatever the
  pointer position when the hook has room, and a fish at distance 100 is never caught,
  even under the pointer.
\<close>

theorem check_catches_condition:
  assumes cap: "line_get_hook_capacity gs = Inr capacity"
    and live: "all_fish m = xs @ f # ys" and dist: "distinct (all_fish m)"
    and unc: "\<not> fish_caught (h f)"
    and nh: "set (all_fish m) \<inter> set (caught_fish fl) = {}"
    and nm: "f \<notin> set (mgr_caught_fish m)"
  shows "\<exists>h' fl' m' caught_any.
     check_catches gs mouse_pos fl m h = Inr (h', fl', m', caught_any)
     \<and> (fish_caught (h' f) \<longleftrightarrow>
          (collidepoint (fish_rect (h f)) mouse_pos
             \<and> distance (center (fish_rect (h f))) (center (hook_rect fl)) \<le> 80)
          \<or> distance (center (fish_rect (h f))) (center (hook_rect fl)) \<le> 30)
     \<and> (f \<in> set (caught_fish fl') \<longleftrightarrow>
          ((collidepoint (fish_rect (h f)) mouse_pos
             \<and> distance (center (fish_rect (h f))) (center (hook_rect fl)) \<le> 80)
           \<or> distance (center (fish_rect (h f))) (center (hook_rect fl)) \<le> 30)
          \<and> int (length (caught_fish fl))
              + int (length (filter (\<lambda>x. \<not> fish_caught (h x)
                     \<and> catch_condition mouse_pos (center (hook_rect fl)) (fish_rect (h x))) xs))
              < capacity)
     \<and> (f \<in> set (caught_fish fl') \<longrightarrow>
          f \<in> set (mgr_caught_fish m') \<and> f \<notin> set (all_fish m') \<and> caught_any)
     \<and> (f \<notin> set (caught_fish fl') \<longrightarrow>
          f \<notin> set (mgr_caught_fish m') \<and> f \<in> set (all_fish m'))
     \<and> (distance (center (fish_rect (h f))) (center (hook_rect fl)) = 25
          \<and> int (length (caught_fish fl))
              + int (length (filter (\<lambda>x. \<not> fish_caught (h x)
                     \<and> catch_condition mouse_pos (center (hook_rect fl)) (fish_rect (h x))) xs))
              < capacity
          \<longrightarrow> f \<in> set (caught_fish fl'))
     \<and> (distance (center (fish_rect (h f))) (center (hook_rect fl)) = 100
          \<longrightarrow> f \<notin> set (caught_fish fl'))"
proof -
  let ?hc = "center (hook_rect fl)"
  let ?cc = "catch_condition mouse_pos ?hc (fish_rect (h f))"
  let ?room = "int (length (caught_fish fl))
              + int (length (filter (\<lambda>x. \<not> fish_caught (h x)
                     \<and> catch_condition mouse_pos ?hc (fish_rect (h x))) xs)) < capacity"
  from dist live have dxs: "distinct xs" and dys: "distinct ys"
    and fx: "f \<notin> set xs" and fy: "f \<notin> set ys" by auto
  from nh live have nhx: "set xs \<inter> set (caught_fish fl) = {}" and fh: "f \<notin> set (caught_fish fl)"
    by auto
  from live have fl0: "f \<in> set (all_fish m)" by simp
  \<comment> \<open>the fish before \<open>f\<close>\<close>
  from check_catches_loop_returns [OF cap, of mouse_pos ?hc xs "(h, fl, m, False)"]
  obtain h1 fl1 m1 a1 where
    run1: "check_catches_loop gs mouse_pos ?hc xs (h, fl, m, False) = Inr (h1, fl1, m1, a1)"
    using prod_cases4 by metis
  note st1 = check_catches_loop_store [OF cap run1]
  note ls1 = check_catches_loop_lists [OF cap run1]
  note ct1 = check_catches_loop_count [OF cap run1 dxs nhx]
  from st1 fx have h1f: "h1 f = h f" by blast
  from ls1 fx fh have f1: "f \<notin> set (caught_fish fl1)" by blast
  from ls1 fx nm have g1: "f \<notin> set (mgr_caught_fish m1)" by blast
  from ls1 fx fl0 have a1f: "f \<in> set (all_fish m1)" by blast
  from ct1 have room_iff: "int (length (caught_fish fl1)) < capacity \<longleftrightarrow> ?room"
    by (auto simp: min_def split: if_splits)
  \<comment> \<open>the fish \<open>f\<close> and those after it\<close>
  from check_catches_loop_returns [OF cap, of mouse_pos ?hc "f # ys" "(h1, fl1, m1, a1)"]
  obtain h' fl' m' a' where
    run2: "check_catches_loop gs mouse_pos ?hc (f # ys) (h1, fl1, m1, a1) = Inr (h', fl', m', a')"
    using prod_cases4 by metis
  have run: "check_catches gs mouse_pos fl m h = Inr (h', fl', m', a')"
    unfolding check_catches_def live check_catches_loop_append run1 using run2
    by (simp del: check_catches_loop.simps)
  from check_catches_loop_store [OF cap run [unfolded check_catches_def]] fl0 unc
  have flag: "fish_caught (h' f) \<longleftrightarrow> ?cc" by blast
  have moved: "(f \<in> set (caught_fish fl') \<longleftrightarrow> ?cc \<and> ?room)
     \<and> (f \<in> set (caught_fish fl') \<longrightarrow>
          f \<in> set (mgr_caught_fish m') \<and> f \<notin> set (all_fish m') \<and> a')
     \<and> (f \<notin> set (caught_fish fl') \<longrightarrow>
          f \<notin> set (mgr_caught_fish m') \<and> f \<in> set (all_fish m'))"
  proof (rule check_catches_loop_Cons_cases [OF cap, of h1 f mouse_pos ?hc ys fl1 m1 a1])
    assume c: "fish_caught (h1 f) \<or> \<not> catch_condition mouse_pos ?hc (fish_rect (h1 f))"
      and e: "check_catches_loop gs mouse_pos ?hc (f # ys) (h1, fl1, m1, a1)
               = check_catches_loop gs mouse_pos ?hc ys (h1, fl1, m1, a1)"
    from run2 e have r: "check_catches_loop gs mouse_pos ?hc ys (h1, fl1, m1, a1) = Inr (h', fl', m', a')"
      by simp
    note ls = check_catches_loop_lists [OF cap r]
    from c unc have ncc: "\<not> ?cc" unfolding h1f by blast
    from ls fy f1 have "f \<notin> set (caught_fish fl')" by blast
    moreover from ls fy g1 have "f \<notin> set (mgr_caught_fish m')" by blast
    moreover from ls fy a1f have "f \<in> set (all_fish m')" by blast
    ultimately show ?thesis using ncc by blast
  next
    let ?h2 = "h1(f := (h1 f)\<lparr>fish_caught := True\<rparr>)"
    assume cc: "catch_condition mouse_pos ?hc (fish_rect (h1 f))"
      and nr: "\<not> has_room capacity f fl1"
      and e: "check_catches_loop gs mouse_pos ?hc (f # ys) (h1, fl1, m1, a1) =
               check_catches_loop gs mouse_pos ?hc ys (?h2, fl1, m1, a1)"
    from run2 e have r: "check_catches_loop gs mouse_pos ?hc ys (?h2, fl1, m1, a1) = Inr (h', fl', m', a')"
      by simp
    note ls = check_catches_loop_lists [OF cap r]
    from nr f1 room_iff have nroom: "\<not> ?room" by simp
    from ls fy f1 have "f \<notin> set (caught_fish fl')" by blast
    moreover from ls fy g1 have "f \<notin> set (mgr_caught_fish m')" by blast
    moreover from ls fy a1f have "f \<in> set (all_fish m')" by blast
    ultimately show ?thesis using nroom by blast
  next
    let ?h2 = "h1(f := (h1 f)\<lparr>fish_caught := True\<rparr>)"
    let ?fl2 = "fl1\<lparr>caught_fish := caught_fish fl1 @ [f]\<rparr>"
    let ?m2 = "m1\<lparr>mgr_caught_fish := mgr_caught_fish m1 @ [f], all_fish := removeAll f (all_fish m1)\<rparr>"
    assume cc: "catch_condition mouse_pos ?hc (fish_rect (h1 f))"
      and hr: "has_room capacity f fl1"
      and e: "check_catches_loop gs mouse_pos ?hc (f # ys) (h1, fl1, m1, a1) =
               check_catches_loop gs mouse_pos ?hc ys (?h2, ?fl2, ?m2, True)"
    from run2 e have r: "check_catches_loop gs mouse_pos ?hc ys (?h2, ?fl2, ?m2, True) = Inr (h', fl', m', a')"
      by simp
    note ls = check_catches_loop_lists [OF cap r]
    note mn = check_catches_loop_mono [OF cap r]
    from hr room_iff have room: "?room" by simp
    from cc have ccf: "?cc" unfolding h1f .
    from ls have "f \<in> set (caught_fish fl')" by auto
    moreover from mn have "f \<in> set (mgr_caught_fish m')" by auto
    moreover from mn have "f \<notin> set (all_fish m')" by auto
    moreover from mn have "a'" by simp
    ultimately show ?thesis using room ccf by blast
  qed
  from moved have d25: "distance (center (fish_rect (h f))) ?hc = 25 \<and> ?room
          \<longrightarrow> f \<in> set (caught_fish fl')" by simp
  from moved have d100: "distance (center (fish_rect (h f))) ?hc = 100
          \<longrightarrow> f \<notin> set (caught_fish fl')" by simp
  from run flag moved d25 d100 show ?thesis by blast
qed

theorem check_catches_condition_witness:
  "line_get_hook_capacity (Some init_state) = Inr 4
   \<and> distance (center \<lparr>rect_x = 415, rect_y = 320, rect_w = 40, rect_h = 20\<rparr>)
        (center \<lparr>rect_x = 410, rect_y = 300, rect_w = 20, rect_h = 20\<rparr>) = 25
   \<and> distance (center \<lparr>rect_x = 460, rect_y = 380, rect_w = 40, rect_h = 20\<rparr>)
        (center \<lparr>rect_x = 410, rect_y = 300, rect_w = 20, rect_h = 20\<rparr>) = 100
   \<and> collidepoint \<lparr>rect_x = 460, rect_y = 380, rect_w = 40, rect_h = 20\<rparr> (470, 385)
   \<and> (\<exists>h' fl' m' caught_any.
        check_catches (Some init_state) (470, 385)
          \<lparr>current_depth = 40, descending = True,
           hook_rect = \<lparr>rect_x = 410, rect_y = 300, rect_w = 20, rect_h = 20\<rparr>,
           horizontal_offset = 0, caught_fish = []\<rparr>
          \<lparr>all_fish = [0, 1], mgr_caught_fish = []\<rparr>
          ((\<lambda>_. new_fish (initialize_fish_data ! 0)
                   \<lparr>rect_x = 415, rect_y = 320, rect_w = 40, rect_h = 20\<rparr> 1)
           (1 := new_fish (initialize_fish_data ! 4)
                   \<lparr>rect_x = 460, rect_y = 380, rect_w = 40, rect_h = 20\<rparr> (- 1)))
        = Inr (h', fl', m', caught_any)
        \<and> 0 \<in> set (caught_fish fl') \<and> 0 \<in> set (mgr_caught_fish m') \<and> 0 \<notin> set (all_fish m')
        \<and> caught_any
        \<and> 1 \<notin> set (caught_fish fl') \<and> 1 \<notin> set (mgr_caught_fish m') \<and> 1 \<in> set (all_fish m'))"
proof -
  let ?fl = "\<lparr>current_depth = 40, descending = True,
           hook_rect = \<lparr>rect_x = 410, rect_y = 300, rect_w = 20, rect_h = 20\<rparr>,
           horizontal_offset = 0, caught_fish = []\<rparr>"
  let ?m = "\<lparr>all_fish = [0, 1], mgr_caught_fish = []\<rparr>"
  let ?h = "(\<lambda>_::nat. new_fish (initialize_fish_data ! 0)
                   \<lparr>rect_x = 415, rect_y = 320, rect_w = 40, rect_h = 20\<rparr> 1)
           (1 := new_fish (initialize_fish_data ! 4)
                   \<lparr>rect_x = 460, rect_y = 380, rect_w = 40, rect_h = 20\<rparr> (- 1))"
  have cap: "line_get_hook_capacity (Some init_state) = Inr 4"
    by (simp add: line_get_hook_capacity_def get_hook_capacity_def init_state_def
        init_upgrades_def BASE_HOOK_CAPACITY_def CAPACITY_INCREASE_PER_LEVEL_def)
  have d0: "distance (center \<lparr>rect_x = 415, rect_y = 320, rect_w = 40, rect_h = 20\<rparr>)
        (center \<lparr>rect_x = 410, rect_y = 300, rect_w = 20, rect_h = 20\<rparr>) = 25"
    by (simp add: distance_eq_iff center_def)
  have d1: "distance (center \<lparr>rect_x = 460, rect_y = 380, rect_w = 40, rect_h = 20\<rparr>)
        (center \<lparr>rect_x = 410, rect_y = 300, rect_w = 20, rect_h = 20\<rparr>) = 100"
    by (simp add: distance_eq_iff center_def)
  have cp: "collidepoint \<lparr>rect_x = 460, rect_y = 380, rect_w = 40, rect_h = 20\<rparr> (470, 385)"
    by (simp add: collidepoint_def)
  have l0: "all_fish ?m = [] @ 0 # [1]" and l1: "all_fish ?m = [0] @ 1 # []" by simp_all
  have ds: "distinct (all_fish ?m)" by simp
  have u0: "\<not> fish_caught (?h 0)" and u1: "\<not> fish_caught (?h 1)" by (simp_all add: new_fish_def)
  have nh: "set (all_fish ?m) \<inter> set (caught_fish ?fl) = {}" by simp
  have n0: "0 \<notin> set (mgr_caught_fish ?m)" and n1: "1 \<notin> set (mgr_caught_fish ?m)" by simp_all
  have r0: "fish_rect (?h 0) = \<lparr>rect_x = 415, rect_y = 320, rect_w = 40, rect_h = 20\<rparr>"
    and r1: "fish_rect (?h 1) = \<lparr>rect_x = 460, rect_y = 380, rect_w = 40, rect_h = 20\<rparr>"
    by (simp_all add: new_fish_def)
  note t0 = check_catches_condition [where gs = "Some init_state" and capacity = 4 and f = 0
      and xs = "[]" and ys = "[1]"
      and m = ?m and h = ?h and mouse_pos = "(470, 385)" and fl = ?fl]
  note t1 = check_catches_condition [where gs = "Some init_state" and capacity = 4 and f = 1
      and xs = "[0]" and ys = "[]"
      and m = ?m and h = ?h and mouse_pos = "(470, 385)" and fl = ?fl]
  have e0: "\<exists>h' fl' m' a'.
      check_catches (Some init_state) (470, 385) ?fl ?m ?h = Inr (h', fl', m', a')
      \<and> 0 \<in> set (caught_fish fl') \<and> 0 \<in> set (mgr_caught_fish m')
      \<and> 0 \<notin> set (all_fish m') \<and> a'"
    using t0 [OF cap l0 ds u0 nh n0] d0 unfolding r0
    by (elim exE conjE) (intro exI conjI, assumption, simp_all)
  have e1: "\<exists>h' fl' m' a'.
      check_catches (Some init_state) (470, 385) ?fl ?m ?h = Inr (h', fl', m', a')
      \<and> 1 \<notin> set (caught_fish fl') \<and> 1 \<notin> set (mgr_caught_fish m')
      \<and> 1 \<in> set (all_fish m')"
    using t1 [OF cap l1 ds u1 nh n1] d1 unfolding r1
    by (elim exE conjE) (intro exI conjI, assumption, simp_all)
  from e0 obtain h' fl' m' a' where
    run: "check_catches (Some init_state) (470, 385) ?fl ?m ?h = Inr (h', fl', m', a')"
    and c0: "0 \<in> set (caught_fish fl')" "0 \<in> set (mgr_caught_fish m')"
      "0 \<notin> set (all_fish m')" "a'"
    by blast
  from e1 run have c1: "1 \<notin> set (caught_fish fl')" "1 \<notin> set (mgr_caught_fish m')"
      "1 \<in> set (all_fish m')"
    by (simp_all del: fun_upd_apply)
  have "check_catches (Some init_state) (470, 385) ?fl ?m ?h = Inr (h', fl', m', a')
        \<and> 0 \<in> set (caught_fish fl') \<and> 0 \<in> set (mgr_caught_fish m') \<and> 0 \<notin> set (all_fish m')
        \<and> a'
        \<and> 1 \<notin> set (caught_fish fl') \<and> 1 \<notin> set (mgr_caught_fish m') \<and> 1 \<in> set (all_fish m')"
    using run c0 c1 by (intro conjI)
  then have "\<exists>h' fl' m' a'. check_catches (Some init_state) (470, 385) ?fl ?m ?h = Inr (h', fl', m', a')
        \<and> 0 \<in> set (caught_fish fl') \<and> 0 \<in> set (mgr_caught_fish m') \<and> 0 \<notin> set (all_fish m')
        \<and> a'
        \<and> 1 \<notin> set (caught_fish fl') \<and> 1 \<notin> set (mgr_caught_fish m') \<and> 1 \<in> set (all_fish m')"
    by (intro exI)
  with cap d0 d1 cp show ?thesis by (intro conjI)
qed

text \<open>
  C4, as stated, fails on a full hook. The hook has capacity 4 and holds the fish 0, 1
  and 2; the live fish 3 and 4 are both at distance 25 from the centre of the hook. Fish 3
  fills the hook, and fish 4 stays in \<^verbatim>\<open>all_fish\<close> and is on neither caught list after
  the call.
\<close>

theorem near_fish_not_caught_on_full_hook:
  "distance (center \<lparr>rect_x = 415, rect_y = 320, rect_w = 40, rect_h = 20\<rparr>)
        (center \<lparr>rect_x = 410, rect_y = 300, rect_w = 20, rect_h = 20\<rparr>) = 25
   \<and> check_catches (Some init_state) (0, 0)
       \<lparr>current_depth = 40, descending = True,
        hook_rect = \<lparr>rect_x = 410, rect_y = 300, rect_w = 20, rect_h = 20\<rparr>,
        horizontal_offset = 0, caught_fish = [0, 1, 2]\<rparr>
       \<lparr>all_fish = [3, 4], mgr_caught_fish = [0, 1, 2]\<rparr>
       (\<lambda>r. (new_fish (initialize_fish_data ! 0)
                \<lparr>rect_x = 415, rect_y = 320, rect_w = 40, rect_h = 20\<rparr> 1)
              \<lparr>fish_caught := r < 3\<rparr>)
     = Inr ((\<lambda>r. (new_fish (initialize_fish_data ! 0)
                \<lparr>rect_x = 415, rect_y = 320, rect_w = 40, rect_h = 20\<rparr> 1)
              \<lparr>fish_caught := r < 3\<rparr>)
            (3 := (new_fish (initialize_fish_data ! 0)
                \<lparr>rect_x = 415, rect_y = 320, rect_w = 40, rect_h = 20\<rparr> 1)
              \<lparr>fish_caught := True\<rparr>,
             4 := (new_fish (initialize_fish_data ! 0)
                \<lparr>rect_x = 415, rect_y = 320, rect_w = 40, rect_h = 20\<rparr> 1)
              \<lparr>fish_caught := True\<rparr>),
            \<lparr>current_depth = 40, descending = True,
             hook_rect = \<lparr>rect_x = 410, rect_y = 300, rect_w = 20, rect_h = 20\<rparr>,
             horizontal_offset = 0, caught_fish = [0, 1, 2, 3]\<rparr>,
            \<lparr>all_fish = [4], mgr_caught_fish = [0, 1, 2, 3]\<rparr>,
            True)
   \<and> 4 \<notin> set [0, 1, 2, 3 :: nat]"
  by (simp add: check_catches_def center_def collidepoint_def distance_le_iff distance_eq_iff
      catch_radius_def catch_def add_caught_fish_def line_get_hook_capacity_def
      get_hook_capacity_def init_state_def init_upgrades_def BASE_HOOK_CAPACITY_def
      CAPACITY_INCREASE_PER_LEVEL_def new_fish_def)

text \<open>
  C5. The hook has capacity 4 and holds the fish 0, 1 and 2; the live fish 3 and 4 both sit
  on the hook. One call of \<^verbatim>\<open>check_catches\<close> moves fish 3 to the hook, which is then
  full. Fish 4 stays in \<^verbatim>\<open>all_fish\<close> and enters no caught list, yet its \<^verbatim>\<open>caught\<close> flag is
  set afterwards: \<^verbatim>\<open>fish.catch()\<close> ran before \<^verbatim>\<open>add_caught_fish\<close> refused the fish.
\<close>

theorem full_hook_marks_fish_caught:
  "\<exists>h' fl' m' caught_any.
     check_catches (Some init_state) (0, 0)
       \<lparr>current_depth = 40, descending = True,
        hook_rect = \<lparr>rect_x = 410, rect_y = 300, rect_w = 20, rect_h = 20\<rparr>,
        horizontal_offset = 0, caught_fish = [0, 1, 2]\<rparr>
       \<lparr>all_fish = [3, 4], mgr_caught_fish = [0, 1, 2]\<rparr>
       (\<lambda>r. (new_fish (initialize_fish_data ! 0)
                \<lparr>rect_x = 400, rect_y = 300, rect_w = 40, rect_h = 20\<rparr> 1)
              \<lparr>fish_caught := r < 3\<rparr>)
     = Inr (h', fl', m', caught_any)
     \<and> caught_fish fl' = [0, 1, 2, 3] \<and> mgr_caught_fish m' = [0, 1, 2, 3]
     \<and> all_fish m' = [4] \<and> fish_caught (h' 4) \<and> caught_any"
  by (auto simp: check_catches_def center_def collidepoint_def distance_le_iff catch_radius_def
      catch_def add_caught_fish_def line_get_hook_capacity_def get_hook_capacity_def
      init_state_def init_upgrades_def BASE_HOOK_CAPACITY_def CAPACITY_INCREASE_PER_LEVEL_def
      new_fish_def)

section \<open>Unlocked zones\<close>

text \<open>
  The relation between the line length level and the unlocked zones is kept by every
  method of the game state, by saving, and by loading a file that the game wrote.
\<close>

lemma ZONE_ORDER_keys: "map fst DEPTH_ZONES = ZONE_ORDER"
  by (simp add: DEPTH_ZONES_def ZONE_ORDER_def)

lemma zones_consistent_init: "zones_consistent init_state"
  by (simp add: zones_consistent_def init_state_def init_upgrades_def ZONE_ORDER_def)

lemma update_unlocked_zones_consistent:
  assumes "update_unlocked_zones s = Inr s'" and "upgrades s ''line_length'' = Some lvl" and "- 1 \<le> lvl"
  shows "zones_consistent s'"
  using assms
  by (auto simp: update_unlocked_zones_def zones_consistent_def ZONE_ORDER_keys Let_def
      py_slice_to_def ZONE_ORDER_def min_def)

lemma zones_consistent_level:
  "zones_consistent s \<Longrightarrow> \<exists>lvl. upgrades s ''line_length'' = Some lvl \<and> - 1 \<le> lvl"
  by (auto simp: zones_consistent_def min_def split: option.splits if_splits)

lemma purchase_upgrade_consistent:
  assumes inv: "zones_consistent s" and run: "purchase_upgrade k s = Inr (ok, s')"
  shows "zones_consistent s'"
proof -
  from zones_consistent_level [OF inv] obtain lvl where
    lvl: "upgrades s ''line_length'' = Some lvl" "- 1 \<le> lvl" by blast
  show ?thesis
  proof (cases ok)
    case False
    with run have "s' = s"
      by (auto simp: purchase_upgrade_def split: option.splits if_splits sum.splits)
    with inv show ?thesis by simp
  next
    case True
    with run obtain cur cost where
      cur: "upgrades s k = Some cur" and
      upd: "update_unlocked_zones (s\<lparr>coins := coins s - cost, upgrades := (upgrades s)(k \<mapsto> cur + 1)\<rparr>) = Inr s'"
      by (auto simp: purchase_upgrade_def split: option.splits if_splits sum.splits)
    let ?s1 = "s\<lparr>coins := coins s - cost, upgrades := (upgrades s)(k \<mapsto> cur + 1)\<rparr>"
    have "\<exists>l1. upgrades ?s1 ''line_length'' = Some l1 \<and> - 1 \<le> l1"
      using lvl cur by auto
    then obtain l1 where "upgrades ?s1 ''line_length'' = Some l1" "- 1 \<le> l1" by blast
    from update_unlocked_zones_consistent [OF upd this] show ?thesis .
  qed
qed

lemma load_game_consistent:
  assumes inv: "zones_consistent s" and fileok: "written_by_game f" and run: "load_game f s = (ok, s')"
  shows "zones_consistent s'"
proof -
  from fileok consider "f = Absent" | "f = Corrupt" | s0 where "zones_consistent s0" "f = save_game s0"
    unfolding written_by_game_def by blast
  then show ?thesis
  proof cases
    case 1
    with run inv show ?thesis by (simp add: load_game_def)
  next
    case 2
    with run inv show ?thesis by (simp add: load_game_def)
  next
    case 3
    have "load_game (save_game s0) s = (True, s0)"
      by (simp add: load_game_def save_game_def get_or_def)
    with run 3 show ?thesis by simp
  qed
qed

lemma zones_consistent_cong:
  "upgrades s' = upgrades s \<Longrightarrow> unlocked_zones s' = unlocked_zones s \<Longrightarrow>
   zones_consistent s' = zones_consistent s"
  by (simp add: zones_consistent_def cong: option.case_cong)

lemma step_consistent:
  assumes "step w w'" and "zones_consistent (fst w)" and "written_by_game (snd w)"
  shows "zones_consistent (fst w') \<and> written_by_game (snd w')"
  using assms
proof (induction rule: step.induct)
  case (step_purchase_upgrade k s ok s' f)
  then show ?case using purchase_upgrade_consistent by auto
next
  case (step_purchase_power_up n c s ok s' f)
  then have "upgrades s' = upgrades s \<and> unlocked_zones s' = unlocked_zones s"
    by (auto simp: purchase_power_up_def split: option.splits if_splits)
  with step_purchase_power_up show ?case using zones_consistent_cong [of s' s] by simp
next
  case (step_use_power_up n s ok s' f)
  then have "upgrades s' = upgrades s \<and> unlocked_zones s' = unlocked_zones s"
    by (auto simp: use_power_up_def split: option.splits if_splits)
  with step_use_power_up show ?case using zones_consistent_cong [of s' s] by simp
next
  case (step_add_coins s f a)
  then show ?case using zones_consistent_cong [of "add_coins a s" s] by (simp add: add_coins_def)
next
  case (step_update_stats s f d n)
  then show ?case
    using zones_consistent_cong [of "update_stats d n s" s] by (simp add: update_stats_def Let_def)
next
  case (step_reset_progress s f)
  then show ?case
    by (simp add: reset_progress_def zones_consistent_def init_upgrades_def ZONE_ORDER_def)
next
  case (step_save_game s f)
  then show ?case by (auto simp: written_by_game_def)
next
  case (step_load_game f s ok s')
  then show ?case using load_game_consistent by auto
next
  case (step_restart s f)
  then show ?case using zones_consistent_init by simp
qed

lemma steps_consistent:
  assumes "step\<^sup>*\<^sup>* w w'" and "zones_consistent (fst w)" and "written_by_game (snd w)"
  shows "zones_consistent (fst w') \<and> written_by_game (snd w')"
  using assms
proof (induction rule: rtranclp_induct)
  case base
  then show ?case by simp
next
  case (step y z)
  then show ?case using step_consistent by blast
qed


text \<open>
  C6, as the code has it. In every state that a history of purchases, power-up calls,
  payouts, resets, saves, loads and restarts reaches from the initial state, when the save
  file the history starts with is missing, unreadable, or was written by \<^verbatim>\<open>save_game\<close>
  from a consistent state, the unlocked zones are the first \<open>min(5, level + 1)\<close> zones of
  the order surface, shallows, mid\_water, deep\_sea, abyss.
\<close>

theorem unlocked_zones_prefix:
  assumes fileok: "written_by_game f0" and hist: "step\<^sup>*\<^sup>* (init_state, f0) (s, f)"
  shows "\<exists>lvl. upgrades s ''line_length'' = Some lvl
      \<and> int (length (unlocked_zones s)) = min 5 (lvl + 1)
      \<and> unlocked_zones s
          = take (nat (min 5 (lvl + 1))) [''surface'', ''shallows'', ''mid_water'', ''deep_sea'', ''abyss'']"
proof -
  from steps_consistent [OF hist] fileok zones_consistent_init have zc: "zones_consistent s" by simp
  show ?thesis
  proof (cases "upgrades s ''line_length''")
    case None
    with zc show ?thesis by (simp add: zones_consistent_def)
  next
    case (Some lvl)
    from zc have "int (length (unlocked_zones s)) = min 5 (lvl + 1)
        \<and> unlocked_zones s = take (nat (min 5 (lvl + 1))) ZONE_ORDER"
      unfolding zones_consistent_def Some option.case .
    then have a: "int (length (unlocked_zones s)) = min 5 (lvl + 1)"
      and b: "unlocked_zones s
          = take (nat (min 5 (lvl + 1))) [''surface'', ''shallows'', ''mid_water'', ''deep_sea'', ''abyss'']"
      unfolding ZONE_ORDER_def by blast+
    show ?thesis by (rule exI [of _ lvl]) (intro conjI Some a b)
  qed
qed

theorem unlocked_zones_prefix_witness:
  "written_by_game Absent
   \<and> step\<^sup>*\<^sup>* (init_state, Absent)
        (\<lparr>coins = 0, upgrades = init_upgrades(''line_length'' \<mapsto> 1), power_ups = init_power_ups,
          unlocked_zones = [''surface'', ''shallows''], total_fish_caught = 0,
          total_coins_earned = 100, deepest_depth_reached = 0\<rparr>, Absent)
   \<and> (\<exists>lvl. (init_upgrades(''line_length'' \<mapsto> 1)) ''line_length'' = Some lvl
        \<and> int (length [''surface'', ''shallows'']) = min 5 (lvl + 1)
        \<and> [''surface'', ''shallows'']
            = take (nat (min 5 (lvl + 1))) [''surface'', ''shallows'', ''mid_water'', ''deep_sea'', ''abyss''])"
proof -
  let ?s2 = "\<lparr>coins = 0, upgrades = init_upgrades(''line_length'' \<mapsto> 1), power_ups = init_power_ups,
          unlocked_zones = [''surface'', ''shallows''], total_fish_caught = 0,
          total_coins_earned = 100, deepest_depth_reached = 0\<rparr>"
  have wb: "written_by_game Absent" by (simp add: written_by_game_def)
  have p: "purchase_upgrade ''line_length'' (add_coins 100 init_state) = Inr (True, ?s2)"
    by (simp add: purchase_upgrade_def add_coins_def init_state_def init_upgrades_def
        UPGRADE_COSTS_def py_index_def update_unlocked_zones_def DEPTH_ZONES_def py_slice_to_def)
  have s1: "step (init_state, Absent) (add_coins 100 init_state, Absent)"
    by (rule step_add_coins)
  have s2: "step (add_coins 100 init_state, Absent) (?s2, Absent)"
    using p by (rule step_purchase_upgrade)
  from s1 s2 have path: "step\<^sup>*\<^sup>* (init_state, Absent) (?s2, Absent)" by auto
  from unlocked_zones_prefix [OF wb path] wb path show ?thesis by simp
qed


text \<open>
  C6, as stated, fails for a load of an arbitrary record: \<^verbatim>\<open>load_game\<close> copies
  \<^verbatim>\<open>unlocked_zones\<close> from the record, or takes \<^verbatim>\<open>["surface"]\<close> when the key is missing,
  and does not recompute it from the loaded level. A record with line length level 2 and no
  \<^verbatim>\<open>unlocked_zones\<close> key loads into a state with one unlocked zone.
\<close>

theorem load_breaks_unlocked_zones_prefix:
  "step\<^sup>*\<^sup>*
     (init_state,
      Saved \<lparr>sd_coins = Some 0,
             sd_upgrades = Some [''line_length'' \<mapsto> 2, ''hook_capacity'' \<mapsto> 0, ''round_timer'' \<mapsto> 0],
             sd_power_ups = None, sd_unlocked_zones = None, sd_stats = None\<rparr>)
     (init_state\<lparr>upgrades := [''line_length'' \<mapsto> 2, ''hook_capacity'' \<mapsto> 0, ''round_timer'' \<mapsto> 0]\<rparr>,
      Saved \<lparr>sd_coins = Some 0,
             sd_upgrades = Some [''line_length'' \<mapsto> 2, ''hook_capacity'' \<mapsto> 0, ''round_timer'' \<mapsto> 0],
             sd_power_ups = None, sd_unlocked_zones = None, sd_stats = None\<rparr>)
   \<and> upgrades (init_state\<lparr>upgrades := [''line_length'' \<mapsto> 2, ''hook_capacity'' \<mapsto> 0,
                                          ''round_timer'' \<mapsto> 0]\<rparr>) ''line_length'' = Some 2
   \<and> unlocked_zones (init_state\<lparr>upgrades := [''line_length'' \<mapsto> 2, ''hook_capacity'' \<mapsto> 0,
                                                ''round_timer'' \<mapsto> 0]\<rparr>) = [''surface'']
   \<and> int (length (unlocked_zones (init_state\<lparr>upgrades := [''line_length'' \<mapsto> 2, ''hook_capacity'' \<mapsto> 0,
                                                ''round_timer'' \<mapsto> 0]\<rparr>))) \<noteq> min 5 (2 + 1)"
proof -
  let ?d = "\<lparr>sd_coins = Some 0,
             sd_upgrades = Some [''line_length'' \<mapsto> 2, ''hook_capacity'' \<mapsto> 0, ''round_timer'' \<mapsto> (0::int)],
             sd_power_ups = None, sd_unlocked_zones = None, sd_stats = None\<rparr>"
  let ?bad = "init_state\<lparr>upgrades := [''line_length'' \<mapsto> 2, ''hook_capacity'' \<mapsto> 0, ''round_timer'' \<mapsto> 0]\<rparr>"
  have "load_game (Saved ?d) init_state = (True, ?bad)"
    by (simp add: load_game_def get_or_def init_state_def)
  then have "step (init_state, Saved ?d) (?bad, Saved ?d)" by (rule step_load_game)
  then have "step\<^sup>*\<^sup>* (init_state, Saved ?d) (?bad, Saved ?d)" by auto
  then show ?thesis by (simp add: init_state_def)
qed

end
